theory Spec2Isabelle
  imports Main "HOL-Library.Word"
begin

section \<open>conf.c: the parser of finit.conf\<close>

subsection \<open>Strings and the matching macro\<close>

text \<open>
  A C string is modelled by the list of its characters before the terminating NUL.
  \<^verbatim>\<open>MATCH_CMD(l, c, x)\<close> is the macro
  \<^verbatim>\<open>(!strncmp(l, c, strlen(c)) && (x = (l) + strlen(c)))\<close>:
  it succeeds when \<open>c\<close> is a prefix of \<open>l\<close>, and then \<open>x\<close> points at the rest of the
  line. The result \<open>Some x\<close> is a match with that rest, \<open>None\<close> is no match.
\<close>

definition MATCH_CMD :: "string \<Rightarrow> string \<Rightarrow> string option" where
  "MATCH_CMD l c = (if take (length c) l = c then Some (drop (length c) l) else None)"

text \<open>\<^verbatim>\<open>isblank\<close> of the C locale: space and horizontal tab.\<close>

definition isblank :: "char \<Rightarrow> bool" where
  "isblank c = (c = CHR '' '' \<or> c = CHR 0x09)"

text \<open>
  \<^verbatim>\<open>strip_line\<close> has two loops. The first advances \<open>line\<close> over blanks; the second
  advances \<open>ptr\<close> to the first \<open>#\<close> (or to the end) and writes a NUL there.
\<close>

fun trim_leading :: "string \<Rightarrow> string" where
  "trim_leading [] = []"
| "trim_leading (c # cs) = (if isblank c then trim_leading cs else c # cs)"

fun cut_comment :: "string \<Rightarrow> string" where
  "cut_comment [] = []"
| "cut_comment (c # cs) = (if c = CHR ''#'' then [] else c # cut_comment cs)"

definition strip_line :: "string \<Rightarrow> string" where
  "strip_line line = cut_comment (trim_leading line)"

text \<open>
  \<^verbatim>\<open>strlcat(dst, src, size)\<close> appends as much of \<open>src\<close> as fits in a buffer of
  \<open>size\<close> bytes, the NUL included; a \<open>dst\<close> that already fills the buffer is left alone.
\<close>

definition strlcat :: "string \<Rightarrow> string \<Rightarrow> nat \<Rightarrow> string" where
  "strlcat dst src siz = (if length dst < siz then take (siz - 1) (dst @ src) else dst)"

subsection \<open>The parser's state and surroundings\<close>

datatype svc_cmd = SVC_CMD_SERVICE | SVC_CMD_TASK | SVC_CMD_RUN

text \<open>
  The calls the parser makes into other modules, in the order it makes them:
  \<^verbatim>\<open>run_interactive(cmd, fmt, arg)\<close> (the formatted progress text is kept as one string),
  \<^verbatim>\<open>svc_register(type, line, username)\<close> and \<^verbatim>\<open>tty_add(tty, baud)\<close>.
\<close>

datatype action =
    Run_interactive string string
  | Svc_register svc_cmd string "string option"
  | Tty_add "string option" int

text \<open>
  The globals the parser assigns. A \<^verbatim>\<open>char *\<close> global is a \<open>string option\<close>
  (\<open>None\<close> is NULL); \<open>cfglevel\<close> is a C \<^verbatim>\<open>int\<close>.
\<close>

record conf =
  username :: "string option"
  hostname :: "string option"
  rcsd :: "string option"
  network :: "string option"
  sdown :: "string option"
  console :: "string option"
  cfglevel :: "32 word"
  actions :: "action list"

text \<open>
  What conf.c takes from headers and libraries that are not part of these sources:
  the constants \<^verbatim>\<open>DEFUSER\<close>, \<^verbatim>\<open>DEFHOST\<close>, \<^verbatim>\<open>FINIT_RCSD\<close>, \<^verbatim>\<open>RUNLEVEL\<close>
  and \<^verbatim>\<open>CMD_SIZE\<close>, the allocator behind \<^verbatim>\<open>strdup\<close> (NULL when out of memory), and
  \<^verbatim>\<open>strtonum(token, 1, 9, &err)\<close>, which returns a \<^verbatim>\<open>long long\<close> and stores an error
  text (or NULL) in \<open>err\<close>.
\<close>

record conf_env =
  DEFUSER :: string
  DEFHOST :: string
  FINIT_RCSD :: string
  RUNLEVEL :: "32 word"
  CMD_SIZE :: nat
  strdup :: "string \<Rightarrow> string option"
  strtonum :: "string \<Rightarrow> int \<Rightarrow> int \<Rightarrow> 64 word \<times> string option"

subsection \<open>The handlers\<close>

text \<open>
  The three directives that build a shell command: \<^verbatim>\<open>strcpy\<close> of the program, \<^verbatim>\<open>strlcat\<close>
  of the stripped argument, then \<^verbatim>\<open>run_interactive\<close>.
\<close>

definition run_cmd :: "conf_env \<Rightarrow> string \<Rightarrow> string \<Rightarrow> string \<Rightarrow> conf \<Rightarrow> conf" where
  "run_cmd E prog msg x st =
     (let arg = strip_line x;
          cmd = strlcat prog arg (CMD_SIZE E)
      in st\<lparr>actions := actions st @ [Run_interactive cmd (msg @ arg)]\<rparr>)"

text \<open>
  The \<^verbatim>\<open>runlevel\<close> handler, from the stripped token on: the \<^verbatim>\<open>long long\<close> of
  \<^verbatim>\<open>strtonum\<close> is converted to
  \<^verbatim>\<open>int\<close>, replaced by \<^verbatim>\<open>RUNLEVEL\<close> on error, and by 2 when it is below 1, above 9
  or equal to 6 (signed comparisons).
\<close>

definition runlevel_of :: "conf_env \<Rightarrow> string \<Rightarrow> 32 word" where
  "runlevel_of E token =
     (let r = strtonum E token 1 9;
          lvl = (case snd r of None \<Rightarrow> ucast (fst r) | Some e \<Rightarrow> RUNLEVEL E)
      in if lvl <s 1 \<or> 9 <s lvl \<or> lvl = 6 then 2 else lvl)"

text \<open>
  One link of the chain \<^verbatim>\<open>if (MATCH_CMD(line, c, x)) { body; continue; }\<close>: when the
  keyword matches, the body runs on \<open>x\<close> and the rest of the loop body is skipped.
\<close>

definition if_match :: "string \<Rightarrow> string \<Rightarrow> (string \<Rightarrow> 'a) \<Rightarrow> 'a \<Rightarrow> 'a" where
  "if_match line c body rest = (case MATCH_CMD line c of Some x \<Rightarrow> body x | None \<Rightarrow> rest)"

text \<open>
  The body of the read loop for one line, after \<^verbatim>\<open>chomp\<close>: the chain of the source,
  in its order. A line that matches nothing is ignored.
\<close>

definition parse_line :: "conf_env \<Rightarrow> string \<Rightarrow> conf \<Rightarrow> conf" where
  "parse_line E line st =
    if_match line ''#'' (\<lambda>x. st) (
    if_match line ''check ''
      (\<lambda>x. run_cmd E ''/sbin/fsck -C -a '' ''Checking file system '' x st) (
    if_match line ''user '' (\<lambda>x. st\<lparr>username := strdup E (strip_line x)\<rparr>) (
    if_match line ''host '' (\<lambda>x. st\<lparr>hostname := strdup E (strip_line x)\<rparr>) (
    if_match line ''module ''
      (\<lambda>x. run_cmd E ''/sbin/modprobe '' ''Loading kernel module '' x st) (
    if_match line ''mknod ''
      (\<lambda>x. run_cmd E ''/bin/mknod '' ''Creating device node '' x st) (
    if_match line ''network '' (\<lambda>x. st\<lparr>network := strdup E (strip_line x)\<rparr>) (
    if_match line ''runparts '' (\<lambda>x. st\<lparr>rcsd := strdup E (strip_line x)\<rparr>) (
    if_match line ''startx ''
      (\<lambda>x. st\<lparr>actions := actions st @
                [Svc_register SVC_CMD_SERVICE (strip_line x) (username st)]\<rparr>) (
    if_match line ''shutdown '' (\<lambda>x. st\<lparr>sdown := strdup E (strip_line x)\<rparr>) (
    if_match line ''runlevel '' (\<lambda>x. st\<lparr>cfglevel := runlevel_of E (strip_line x)\<rparr>) (
    if_match line ''service ''
      (\<lambda>x. st\<lparr>actions := actions st @ [Svc_register SVC_CMD_SERVICE x None]\<rparr>) (
    if_match line ''task ''
      (\<lambda>x. st\<lparr>actions := actions st @ [Svc_register SVC_CMD_TASK x None]\<rparr>) (
    if_match line ''run ''
      (\<lambda>x. st\<lparr>actions := actions st @ [Svc_register SVC_CMD_RUN x None]\<rparr>) (
    if_match line ''console '' (\<lambda>x. st\<lparr>console := strdup E (strip_line x)\<rparr>) (
    if_match line ''tty ''
      (\<lambda>x. st\<lparr>actions := actions st @ [Tty_add (strdup E (strip_line x)) 115200]\<rparr>)
    st)))))))))))))))"

text \<open>
  How the stream of an opened file ends: \<^verbatim>\<open>fgets\<close> delivers the lines and then either
  the end of the file is reached, or a read error stays, so that \<^verbatim>\<open>fgets\<close> keeps
  returning NULL while \<^verbatim>\<open>feof\<close> stays false.
\<close>

datatype stream_end = At_eof | Read_error

text \<open>
  \<^verbatim>\<open>parse_finit_conf\<close>: the three defaults are set first; if the file opens
  (\<open>Some\<close> of the lines \<^verbatim>\<open>fgets\<close> delivers, each after \<^verbatim>\<open>chomp\<close>, and of how the
  stream ends), every line goes through the chain above. The loop
  \<^verbatim>\<open>while (!feof(fp)) { if (!fgets(...)) continue; ... }\<close> is left only at the end of the
  file: with a read error that stays it runs forever, and the result is \<open>None\<close>.
\<close>

definition parse_finit_conf ::
  "conf_env \<Rightarrow> (string list \<times> stream_end) option \<Rightarrow> conf \<Rightarrow> conf option" where
  "parse_finit_conf E fp st0 =
     (let st = st0\<lparr>username := strdup E (DEFUSER E),
                   hostname := strdup E (DEFHOST E),
                   rcsd := strdup E (FINIT_RCSD E)\<rparr>
      in case fp of
           None \<Rightarrow> Some st
         | Some (ls, At_eof) \<Rightarrow> Some (foldl (\<lambda>s l. parse_line E l s) st ls)
         | Some (ls, Read_error) \<Rightarrow> None)"

text \<open>A configuration and its surroundings to evaluate the parser on.\<close>

definition conf0 :: conf where
  "conf0 = \<lparr>username = None, hostname = None, rcsd = None, network = None, sdown = None,
            console = None, cfglevel = 2, actions = []\<rparr>"

definition conf_env0 :: conf_env where
  "conf_env0 = \<lparr>DEFUSER = ''root'', DEFHOST = ''noname'', FINIT_RCSD = ''/etc/finit.d'',
                RUNLEVEL = 2, CMD_SIZE = 256, strdup = Some,
                strtonum = (\<lambda>s lo hi. if s = ''3'' then (3, None) else (0, Some ''invalid''))\<rparr>"

section \<open>iwatch.c: the inotify watcher\<close>

text \<open>
  \<^verbatim>\<open>struct iwatch_path\<close> has the fields \<open>path\<close> and \<open>wd\<close> (and the queue link);
  \<^verbatim>\<open>struct iwatch\<close> has the descriptor \<open>fd\<close> and the tail queue \<open>iwp_list\<close>. A
  node of the queue is kept with its address, since \<^verbatim>\<open>iwatch_del\<close> and the two
  \<^verbatim>\<open>find\<close> functions work with pointers to nodes.
\<close>

record iwatch_path =
  path :: string
  wd :: int

type_synonym iwp_ptr = nat

record iwatch =
  fd :: int
  iwp_list :: "(iwp_ptr \<times> iwatch_path) list"

text \<open>The system calls the watcher makes, recorded in the order they are made.\<close>

datatype syscall =
    Inotify_init1
  | Inotify_add_watch int string "32 word"
  | Inotify_rm_watch int int
  | Close int

text \<open>
  What is global to the module: the file-static flag \<open>initialized\<close>, and the system
  calls made so far.
\<close>

record iw_world =
  initialized :: bool
  syscalls :: "syscall list"

definition world0 :: iw_world where
  "world0 = \<lparr>initialized = False, syscalls = []\<rparr>"

text \<open>
  What one call of the watcher gets from outside: whether the file exists
  (\<^verbatim>\<open>fexist\<close>), the copy \<^verbatim>\<open>strdup\<close> returns (NULL when out of memory), the
  descriptors the kernel returns (negative on failure), the address \<^verbatim>\<open>malloc\<close> returns
  (NULL when out of memory), and the constant \<^verbatim>\<open>IWATCH_MASK\<close> of iwatch.h.
\<close>

record iw_env =
  fexist :: "string \<Rightarrow> bool"
  dup_path :: "string \<Rightarrow> string option"
  inotify_init1 :: int
  inotify_add_watch :: "int \<Rightarrow> string \<Rightarrow> 32 word \<Rightarrow> int"
  malloc :: "iwp_ptr option"
  IWATCH_MASK :: "32 word"

text \<open>
  Every function returns its C result, the watcher structure and the module state after
  the call. \<^verbatim>\<open>iwatch_init\<close> takes \<open>None\<close> for a NULL pointer.
\<close>

definition iwatch_init :: "iw_env \<Rightarrow> iwatch option \<Rightarrow> iw_world \<Rightarrow> int \<times> iwatch option \<times> iw_world" where
  "iwatch_init E iwo w =
     (case iwo of
        None \<Rightarrow> (- 1, None, w)
      | Some iw \<Rightarrow>
          (let iw1 = iw\<lparr>iwp_list := [], fd := inotify_init1 E\<rparr>;
               w1 = w\<lparr>syscalls := syscalls w @ [Inotify_init1]\<rparr>
           in if fd iw1 < 0 then (- 1, Some iw1, w1)
              else (fd iw1, Some iw1, w1\<lparr>initialized := True\<rparr>)))"

definition iwatch_exit :: "iwatch \<Rightarrow> iw_world \<Rightarrow> iwatch \<times> iw_world" where
  "iwatch_exit iw w =
     (iw\<lparr>iwp_list := []\<rparr>,
      w\<lparr>syscalls := syscalls w @ map (\<lambda>n. Inotify_rm_watch (fd iw) (wd (snd n))) (iwp_list iw)
                       @ [Close (fd iw)],
        initialized := False\<rparr>)"

definition iwatch_add ::
  "iw_env \<Rightarrow> iwatch \<Rightarrow> string \<Rightarrow> 32 word \<Rightarrow> iw_world \<Rightarrow> int \<times> iwatch \<times> iw_world" where
  "iwatch_add E iw file msk w =
     (if \<not> initialized w then (- 1, iw, w)
      else if \<not> fexist E file then (0, iw, w)
      else case dup_path E file of
        None \<Rightarrow> (- 1, iw, w)
      | Some p \<Rightarrow>
          (let m = or (IWATCH_MASK E) msk;
               d = inotify_add_watch E (fd iw) p m;
               w1 = w\<lparr>syscalls := syscalls w @ [Inotify_add_watch (fd iw) p m]\<rparr>
           in if d < 0 then (- 1, iw, w1)
              else case malloc E of
                None \<Rightarrow> (- 1, iw, w1\<lparr>syscalls := syscalls w1 @ [Inotify_rm_watch (fd iw) d]\<rparr>)
              | Some a \<Rightarrow> (0, iw\<lparr>iwp_list := (a, \<lparr>path = p, wd = d\<rparr>) # iwp_list iw\<rparr>, w1)))"

text \<open>
  \<^verbatim>\<open>iwatch_del\<close> is called with a pointer to a node of the queue: the node with that
  address leaves the queue and its watch is removed.
\<close>

definition iwatch_del ::
  "iwatch \<Rightarrow> iwp_ptr \<times> iwatch_path \<Rightarrow> iw_world \<Rightarrow> int \<times> iwatch \<times> iw_world" where
  "iwatch_del iw iwp w =
     (if \<not> initialized w then (- 1, iw, w)
      else (0, iw\<lparr>iwp_list := filter (\<lambda>n. fst n \<noteq> fst iwp) (iwp_list iw)\<rparr>,
            w\<lparr>syscalls := syscalls w @ [Inotify_rm_watch (fd iw) (wd (snd iwp))]\<rparr>))"

text \<open>The two searches return the first node that matches, \<open>None\<close> for NULL.\<close>

definition iwatch_find_by_wd ::
  "iwatch \<Rightarrow> int \<Rightarrow> iw_world \<Rightarrow> (iwp_ptr \<times> iwatch_path) option" where
  "iwatch_find_by_wd iw d w =
     (if \<not> initialized w then None else find (\<lambda>n. wd (snd n) = d) (iwp_list iw))"

definition iwatch_find_by_path ::
  "iwatch \<Rightarrow> string \<Rightarrow> iw_world \<Rightarrow> (iwp_ptr \<times> iwatch_path) option" where
  "iwatch_find_by_path iw file w =
     (if \<not> initialized w then None else find (\<lambda>n. path (snd n) = file) (iwp_list iw))"

text \<open>Watchers and surroundings to evaluate the functions on.\<close>

definition iw_env_ok :: iw_env where
  "iw_env_ok = \<lparr>fexist = (\<lambda>f. True), dup_path = Some, inotify_init1 = 3,
                inotify_add_watch = (\<lambda>d p m. 1), malloc = Some 7, IWATCH_MASK = 0x3C2\<rparr>"

definition iw_env_gone :: iw_env where
  "iw_env_gone = iw_env_ok\<lparr>fexist := (\<lambda>f. False)\<rparr>"

definition iw_env_nomem :: iw_env where
  "iw_env_nomem = iw_env_ok\<lparr>malloc := None\<rparr>"

definition iw_blank :: iwatch where
  "iw_blank = \<lparr>fd = 0, iwp_list = []\<rparr>"

definition iw_open :: iwatch where
  "iw_open = \<lparr>fd = 3, iwp_list = []\<rparr>"

definition world_up :: iw_world where
  "world_up = \<lparr>initialized = True, syscalls = [Inotify_init1]\<rparr>"

definition iw_one :: iwatch where
  "iw_one = \<lparr>fd = 3, iwp_list = [(7, \<lparr>path = ''/run/a.pid'', wd = 1\<rparr>)]\<rparr>"

definition world_one :: iw_world where
  "world_one = \<lparr>initialized = True,
                syscalls = [Inotify_init1, Inotify_add_watch 3 ''/run/a.pid'' 0x3C2]\<rparr>"

section \<open>finit.c: file system checks, bootstrap wait and telinit\<close>

subsection \<open>Events and surroundings\<close>

text \<open>
  finit.c acts on the system through calls into libraries and other modules. A run is
  described by the list of these calls in the order they are made (debug output is left
  out). Where a call returns a value the program uses, the event carries that value. The
  event of an fsck run also carries the pass and the fstab entry the loop is at.
\<close>

record mntent =
  mnt_fsname :: string
  mnt_dir :: string
  mnt_type :: string
  mnt_opts :: string
  mnt_freq :: int
  mnt_passno :: int

datatype shutop = SHUT_REBOOT

datatype callback = Finalize | Crank_worker | Bootstrap_worker

record wq =
  cb :: callback
  delay :: int

datatype event =
    Log string
  | Systemf string int
  | Do_shutdown shutop
  | Fsck_run int mntent string int
  | Conf_monitor
  | Service_init
  | Service_step_all
  | Service_completed bool
  | Schedule_work wq
  | Run_parts string
  | Service_runlevel int
  | Version_text
  | Usage_text

text \<open>
  A function of finit.c either returns to its caller or ends the process with
  \<^verbatim>\<open>exit(rc)\<close>.
\<close>

datatype 'a outcome = Return 'a | Exit int

text \<open>
  What the program reads from outside. An answer may depend on everything that happened
  before, so each query takes the events so far. \<open>setmntent\<close> gives the entries that
  \<^verbatim>\<open>getmntent_r\<close> will deliver (\<open>None\<close> when the fstab cannot be opened);
  \<open>is_blk dev\<close> is \<^verbatim>\<open>stat(dev, &st) == 0 && S_ISBLK(st.st_mode)\<close>;
  \<open>fs_root_dev\<close> is the device name \<^verbatim>\<open>fs_root_dev\<close> finds under /sys/block
  (\<open>None\<close> for NULL); \<open>ismnt_rw dir\<close> is \<^verbatim>\<open>ismnt("/proc/mounts", dir, "rw")\<close>;
  \<open>access_x p\<close> is \<^verbatim>\<open>access(p, X_OK) == 0\<close>; \<open>getopt\<close> gives the option
  characters \<^verbatim>\<open>getopt\<close> returns before EOF, the value of \<^verbatim>\<open>optind\<close> then, and
  \<open>argv\<close> as \<^verbatim>\<open>getopt\<close> leaves it (it may move options to the front).
  \<open>string_match\<close> and \<open>string_compare\<close> are the helpers of util.h. The remaining
  fields are constants of the build (\<^verbatim>\<open>_PATH_SULOGIN\<close>, whether \<^verbatim>\<open>FSCK_FIX\<close> and
  \<^verbatim>\<open>FAST_BOOT\<close> are defined) and the globals \<^verbatim>\<open>fstab\<close>, \<^verbatim>\<open>runparts\<close>, \<^verbatim>\<open>rescue\<close>,
  \<^verbatim>\<open>cmdlevel\<close> and \<^verbatim>\<open>cfglevel\<close> (here \<open>cfg_level\<close>) as \<^verbatim>\<open>bootstrap_worker\<close>
  finds them.
\<close>

record env =
  setmntent :: "event list \<Rightarrow> mntent list option"
  is_blk :: "event list \<Rightarrow> string \<Rightarrow> bool"
  string_match :: "string \<Rightarrow> string \<Rightarrow> bool"
  string_compare :: "string \<Rightarrow> string \<Rightarrow> bool"
  fs_root_dev :: "event list \<Rightarrow> string option"
  ismnt_rw :: "event list \<Rightarrow> string \<Rightarrow> bool"
  run_interactive :: "event list \<Rightarrow> string \<Rightarrow> int"
  which :: "event list \<Rightarrow> string \<Rightarrow> string option"
  access_x :: "event list \<Rightarrow> string \<Rightarrow> bool"
  systemf :: "event list \<Rightarrow> string \<Rightarrow> int"
  service_completed :: "event list \<Rightarrow> bool"
  fisdir :: "event list \<Rightarrow> string \<Rightarrow> bool"
  getopt :: "string list \<Rightarrow> char list \<times> nat \<times> string list"
  fstab :: string
  PATH_SULOGIN :: string
  FSCK_FIX :: bool
  FAST_BOOT :: bool
  runparts :: "string option"
  rescue :: int
  cmdlevel :: int
  cfg_level :: int

subsection \<open>Single-user recovery\<close>

definition EX_OSFILE :: int where
  "EX_OSFILE = 72"

text \<open>
  The loop of \<^verbatim>\<open>sulogin\<close> over its two candidates: the first one that \<^verbatim>\<open>which\<close>
  finds and that is executable is run with \<^verbatim>\<open>systemf\<close>, and the loop ends. \<open>rc\<close>
  keeps its initial value when there is none. \<open>run_systemf\<close> is a call of
  \<^verbatim>\<open>systemf\<close> with its event.
\<close>

definition run_systemf :: "env \<Rightarrow> string \<Rightarrow> event list \<Rightarrow> int \<times> event list" where
  "run_systemf E cmd tr = (systemf E tr cmd, tr @ [Systemf cmd (systemf E tr cmd)])"

fun sulogin_loop :: "env \<Rightarrow> string list \<Rightarrow> int \<Rightarrow> event list \<Rightarrow> int \<times> event list" where
  "sulogin_loop E [] rc tr = (rc, tr)"
| "sulogin_loop E (c # cs) rc tr =
     (case which E tr c of
        None \<Rightarrow> sulogin_loop E cs rc tr
      | Some p \<Rightarrow>
          if \<not> access_x E tr p then sulogin_loop E cs rc tr
          else run_systemf E p tr)"

definition sulogin :: "env \<Rightarrow> bool \<Rightarrow> event list \<Rightarrow> int outcome \<times> event list" where
  "sulogin E do_reboot tr =
     (case sulogin_loop E [PATH_SULOGIN E, ''sulogin''] EX_OSFILE tr of
        (rc, tr1) \<Rightarrow>
          if do_reboot then (Exit rc, tr1 @ [Do_shutdown SHUT_REBOOT])
          else (Return rc, tr1))"

subsection \<open>fsck\<close>

text \<open>
  The device to check for an entry, \<open>None\<close> when the entry is skipped: a block device
  is taken as it is; otherwise only a \<^verbatim>\<open>UUID=\<close> or \<^verbatim>\<open>LABEL=\<close> name, or
  \<^verbatim>\<open>/dev/root\<close> when \<^verbatim>\<open>fs_root_dev\<close> resolves it.
\<close>

definition fsck_dev :: "env \<Rightarrow> mntent \<Rightarrow> event list \<Rightarrow> string option" where
  "fsck_dev E mnt tr =
     (let dev = mnt_fsname mnt in
      if is_blk E tr dev then Some dev
      else if string_match E dev ''UUID='' \<or> string_match E dev ''LABEL='' then Some dev
      else if string_compare E dev ''/dev/root'' then fs_root_dev E tr
      else None)"

text \<open>\<^verbatim>\<open>snprintf(cmd, sizeof(cmd), ...)\<close> into the 256 byte buffer.\<close>

definition fsck_cmd :: "env \<Rightarrow> string \<Rightarrow> string" where
  "fsck_cmd E dev = take 255 ((if FSCK_FIX E then ''fsck -yf '' else ''fsck -a '') @ dev)"

text \<open>
  The loop of \<^verbatim>\<open>fsck(pass)\<close> over the entries of the fstab, with the sum \<open>rc\<close>.
  After a result above 1 the alert is logged and \<^verbatim>\<open>sulogin(1)\<close> is called, which
  ends the process.
\<close>

fun fsck_loop :: "env \<Rightarrow> int \<Rightarrow> mntent list \<Rightarrow> int \<Rightarrow> event list \<Rightarrow> int outcome \<times> event list" where
  "fsck_loop E pass [] rc tr = (Return rc, tr)"
| "fsck_loop E pass (mnt # ms) rc tr =
     (if mnt_passno mnt = 0 \<or> mnt_passno mnt \<noteq> pass then fsck_loop E pass ms rc tr
      else case fsck_dev E mnt tr of
        None \<Rightarrow> fsck_loop E pass ms rc tr
      | Some dev \<Rightarrow>
          if ismnt_rw E tr (mnt_dir mnt) then fsck_loop E pass ms rc tr
          else
            (let fsck_rc = run_interactive E tr (fsck_cmd E dev);
                 tr1 = tr @ [Fsck_run pass mnt (fsck_cmd E dev) fsck_rc]
             in if fsck_rc > 1 then
                  (case sulogin E True (tr1 @ [Log (''Failed fsck '' @ dev @ '', attempting sulogin ...'')]) of
                     (Exit x, tr2) \<Rightarrow> (Exit x, tr2)
                   | (Return x, tr2) \<Rightarrow> fsck_loop E pass ms (rc + fsck_rc) tr2)
                else fsck_loop E pass ms (rc + fsck_rc) tr1))"

text \<open>
  \<^verbatim>\<open>fsck(pass)\<close>: when the fstab cannot be opened the error is logged and
  \<^verbatim>\<open>sulogin(1)\<close> ends the process (\<^verbatim>\<open>err\<close> is the logging macro of log.h; the
  branch for a \<^verbatim>\<open>sulogin(1)\<close> that returns is never taken).
\<close>

definition fsck :: "env \<Rightarrow> int \<Rightarrow> event list \<Rightarrow> int outcome \<times> event list" where
  "fsck E pass tr =
     (case setmntent E tr of
        None \<Rightarrow>
          (case sulogin E True (tr @ [Log (''Failed opening fstab: '' @ fstab E)]) of
             (Exit x, tr1) \<Rightarrow> (Exit x, tr1)
           | (Return x, tr1) \<Rightarrow> fsck_loop E pass [] 0 tr1)
      | Some ms \<Rightarrow> fsck_loop E pass ms 0 tr)"

text \<open>
  The loop of \<^verbatim>\<open>fsck_all\<close>: \<^verbatim>\<open>for (pass = 1; pass < 10; pass++)\<close>, left at the
  first pass with a result other than 0.
\<close>

function fsck_passes :: "env \<Rightarrow> int \<Rightarrow> event list \<Rightarrow> int outcome \<times> event list" where
  "fsck_passes E pass tr =
     (if pass < 10 then
        (case fsck E pass tr of
           (Exit x, tr1) \<Rightarrow> (Exit x, tr1)
         | (Return rc, tr1) \<Rightarrow> if rc \<noteq> 0 then (Return rc, tr1) else fsck_passes E (pass + 1) tr1)
      else (Return 0, tr))"
  by pat_completeness auto
termination
  by (relation "measure (\<lambda>(E, pass, tr). nat (10 - pass))") auto

declare fsck_passes.simps [simp del]

definition fsck_all :: "env \<Rightarrow> event list \<Rightarrow> int outcome \<times> event list" where
  "fsck_all E tr = (if FAST_BOOT E then (Return 0, tr) else fsck_passes E 1 tr)"

text \<open>
  Reading a run: the events that are fsck runs, the pass of such an event, whether the
  run failed (a result of 2 or more), and whether it was made in a pass from 1 to 9 on
  an entry of that pass.
\<close>

fun is_fsck :: "event \<Rightarrow> bool" where
  "is_fsck (Fsck_run p m cmd c) = True"
| "is_fsck e = False"

fun pass_of :: "event \<Rightarrow> int" where
  "pass_of (Fsck_run p m cmd c) = p"
| "pass_of e = 0"

fun fsck_failed :: "event \<Rightarrow> bool" where
  "fsck_failed (Fsck_run p m cmd c) = (2 \<le> c)"
| "fsck_failed e = False"

fun pass_ok :: "event \<Rightarrow> bool" where
  "pass_ok (Fsck_run p m cmd c) = (mnt_passno m = p \<and> 1 \<le> p \<and> p \<le> 9)"
| "pass_ok e = True"

text \<open>
  A run that ended in recovery: after events without a failed check comes the cause,
  which is either a failed check with its alert or the fstab that could not be opened;
  then the recovery shell, if one was found, with the exit status \<open>x\<close> it gave; then
  the reboot.
\<close>

definition halted_for_recovery :: "env \<Rightarrow> int \<Rightarrow> event list \<Rightarrow> bool" where
  "halted_for_recovery E x tr =
     (\<exists>before cause sh.
        tr = before @ cause @ sh @ [Do_shutdown SHUT_REBOOT] \<and>
        list_all (\<lambda>e. \<not> fsck_failed e) before \<and>
        (sh = [] \<or> (\<exists>p. sh = [Systemf p x])) \<and>
        (cause = [Log (''Failed opening fstab: '' @ fstab E)] \<or>
         (\<exists>pass mnt dev c. 2 \<le> c \<and>
            cause = [Fsck_run pass mnt (fsck_cmd E dev) c,
                     Log (''Failed fsck '' @ dev @ '', attempting sulogin ...'')])))"

subsection \<open>The bootstrap wait\<close>

text \<open>
  The two work items: \<open>final\<close> is static in \<^verbatim>\<open>bootstrap_worker\<close>, and
  \<open>bootstrap_work\<close> is the one \<^verbatim>\<open>main\<close> schedules. \<open>cnt_init\<close> is the initial
  value of the static counter \<open>cnt\<close>.
\<close>

definition final :: wq where
  "final = \<lparr>cb = Finalize, delay = 10\<rparr>"

definition bootstrap_work :: wq where
  "bootstrap_work = \<lparr>cb = Bootstrap_worker, delay = 100\<rparr>"

definition cnt_init :: int where
  "cnt_init = 120 * 10"

text \<open>
  The end of \<^verbatim>\<open>bootstrap_worker\<close>, from \<^verbatim>\<open>schedule_work(&final)\<close> on.
\<close>

definition bootstrap_finish :: "env \<Rightarrow> event list \<Rightarrow> event list" where
  "bootstrap_finish E tr =
     (let tr1 = tr @ [Schedule_work final];
          tr2 = (case runparts E of
                   None \<Rightarrow> tr1
                 | Some d \<Rightarrow> if fisdir E tr1 d \<and> rescue E = 0 then tr1 @ [Run_parts d] else tr1);
          level = (if cmdlevel E \<noteq> 0 then cmdlevel E else cfg_level E)
      in tr2 @ [Service_runlevel level])"

text \<open>
  One call of \<^verbatim>\<open>bootstrap_worker(work)\<close> with the static counter at \<open>cnt\<close>. In
  \<^verbatim>\<open>cnt-- > 0 && !service_completed()\<close> the counter is always decremented, and the
  services are asked only when it was positive. The result says whether \<open>work\<close> was
  scheduled again, and gives the counter and the events after the call.
\<close>

definition bootstrap_worker :: "env \<Rightarrow> wq \<Rightarrow> int \<Rightarrow> event list \<Rightarrow> bool \<times> int \<times> event list" where
  "bootstrap_worker E work cnt tr0 =
     (let tr = tr0 @ [Conf_monitor, Service_init, Service_step_all] in
      if cnt > 0 then
        (let completed = service_completed E tr;
             tr1 = tr @ [Service_completed completed]
         in if \<not> completed then (True, cnt - 1, tr1 @ [Schedule_work work])
            else (False, cnt - 1, bootstrap_finish E tr1))
      else (False, cnt - 1, bootstrap_finish E tr))"

lemma bootstrap_worker_again:
  "bootstrap_worker E work cnt tr = (True, cnt', tr') \<Longrightarrow> 0 < cnt \<and> cnt' = cnt - 1"
  by (auto simp: bootstrap_worker_def Let_def split: if_splits)

text \<open>
  Modelled from the spec: the work queue of schedule.c is not part of these sources. By
  the spec's section 4.1 and 5, \<^verbatim>\<open>schedule_work(work)\<close> enqueues a callback that the
  event loop runs once after the delay of the work item. So the loop calls
  \<^verbatim>\<open>bootstrap_worker\<close> again, 100 ms later, each time the worker has scheduled its own
  work item, and no more once it has not.
\<close>

function bootstrap_wait :: "env \<Rightarrow> int \<Rightarrow> event list \<Rightarrow> int \<times> event list" where
  "bootstrap_wait E cnt tr =
     (case bootstrap_worker E bootstrap_work cnt tr of
        (True, cnt', tr') \<Rightarrow> bootstrap_wait E cnt' tr'
      | (False, cnt', tr') \<Rightarrow> (cnt', tr'))"
  by pat_completeness auto
termination
  by (relation "measure (\<lambda>(E, cnt, tr). nat cnt)") (auto dest: bootstrap_worker_again [OF sym])

declare bootstrap_wait.simps [simp del]

fun is_poll :: "event \<Rightarrow> bool" where
  "is_poll (Service_completed b) = True"
| "is_poll e = False"

text \<open>
  The time the rescheduled work items of a run wait in the queue, in milliseconds.
\<close>

fun wait_ms :: "event list \<Rightarrow> int" where
  "wait_ms [] = 0"
| "wait_ms (Schedule_work w # es) = (if cb w = Bootstrap_worker then delay w else 0) + wait_ms es"
| "wait_ms (e # es) = wait_ms es"

text \<open>
  Reading a run of the wait. \<open>worker_start\<close> are the calls every invocation of the
  worker begins with; \<open>unfinished k\<close> are the events of \<open>k\<close> invocations that each asked,
  heard that the bootstrap is not complete, and scheduled the worker again;
  \<open>asked tr0 k\<close> is the history, from \<open>tr0\<close> on, at the moment invocation \<open>k + 1\<close>
  asks.
\<close>

definition worker_start :: "event list" where
  "worker_start = [Conf_monitor, Service_init, Service_step_all]"

fun unfinished :: "nat \<Rightarrow> event list" where
  "unfinished 0 = []"
| "unfinished (Suc k) =
     worker_start @ [Service_completed False, Schedule_work bootstrap_work] @ unfinished k"

definition asked :: "event list \<Rightarrow> nat \<Rightarrow> event list" where
  "asked tr0 k = tr0 @ unfinished k @ worker_start"

fun is_schedule :: "event \<Rightarrow> bool" where
  "is_schedule (Schedule_work w) = True"
| "is_schedule e = False"

subsection \<open>telinit\<close>

definition isdigit :: "char \<Rightarrow> bool" where
  "isdigit c = (48 \<le> (of_char c :: nat) \<and> (of_char c :: nat) \<le> 57)"

definition version :: "int \<Rightarrow> event list \<Rightarrow> int \<times> event list" where
  "version rc tr = (rc, tr @ [Version_text])"

definition usage :: "int \<Rightarrow> event list \<Rightarrow> int \<times> event list" where
  "usage rc tr = (rc, tr @ [Usage_text])"

text \<open>
  The \<^verbatim>\<open>getopt\<close> loop of \<^verbatim>\<open>telinit\<close> over the option characters: \<open>Some\<close> is a
  \<^verbatim>\<open>return\<close> from inside the loop, \<open>None\<close> is the end of the options.
\<close>

fun getopt_loop :: "char list \<Rightarrow> event list \<Rightarrow> (int \<times> event list) option" where
  "getopt_loop [] tr = None"
| "getopt_loop (c # cs) tr =
     (if c = CHR ''v'' \<or> c = CHR ''V'' then Some (version 0 tr)
      else if c = CHR ''h'' \<or> c = CHR ''?'' then Some (usage 0 tr)
      else getopt_loop cs tr)"

text \<open>\<^verbatim>\<open>argv[optind][0]\<close>: the first character, NUL for an empty argument.\<close>

definition first_char :: "string \<Rightarrow> char" where
  "first_char a = (case a of [] \<Rightarrow> CHR 0x00 | c # cs \<Rightarrow> c)"

definition telinit :: "env \<Rightarrow> string list \<Rightarrow> event list \<Rightarrow> int \<times> event list" where
  "telinit E argv tr =
     (case getopt E argv of (opts, optind, argv') \<Rightarrow>
        (case getopt_loop opts tr of
           Some r \<Rightarrow> r
         | None \<Rightarrow>
             if optind < length argv' then
               (let req = first_char (argv' ! optind) in
                if isdigit req then run_systemf E (''initctl -b runlevel '' @ [req]) tr
                else if req = CHR ''q'' \<or> req = CHR ''Q'' then run_systemf E ''initctl -b reload'' tr
                else if req = CHR ''s'' \<or> req = CHR ''S'' then
                  run_systemf E (''initctl -b runlevel '' @ [req]) tr
                else usage 1 tr)
             else usage 1 tr))"

text \<open>
  The first statement of \<^verbatim>\<open>main\<close>: a process that is not PID 1 returns what
  \<^verbatim>\<open>telinit\<close> returns, which becomes its exit status. \<open>None\<close> stands for PID 1
  going on to boot the system.
\<close>

definition main :: "env \<Rightarrow> int \<Rightarrow> string list \<Rightarrow> event list \<Rightarrow> (int \<times> event list) option" where
  "main E pid argv tr = (if pid \<noteq> 1 then Some (telinit E argv tr) else None)"

text \<open>Surroundings in which nothing is found and every command succeeds.\<close>

definition env0 :: env where
  "env0 = \<lparr>setmntent = (\<lambda>tr. None), is_blk = (\<lambda>tr d. False),
           string_match = (\<lambda>a b. False), string_compare = (\<lambda>a b. False),
           fs_root_dev = (\<lambda>tr. None), ismnt_rw = (\<lambda>tr d. False),
           run_interactive = (\<lambda>tr c. 0), which = (\<lambda>tr c. None), access_x = (\<lambda>tr p. False),
           systemf = (\<lambda>tr c. 0), service_completed = (\<lambda>tr. False), fisdir = (\<lambda>tr d. False),
           getopt = (\<lambda>argv. ([], 1, argv)), fstab = ''/etc/fstab'',
           PATH_SULOGIN = ''/sbin/sulogin'', FSCK_FIX = False, FAST_BOOT = False,
           runparts = None, rescue = 0, cmdlevel = 0, cfg_level = 2\<rparr>"

text \<open>
  The same with a bootstrap that is complete once it has been asked about twice, with
  an \<^verbatim>\<open>initctl\<close> that succeeds only for runlevel 3, and with a \<^verbatim>\<open>getopt\<close> that
  finds the option \<^verbatim>\<open>-v\<close>, or \<^verbatim>\<open>-h\<close>, in front.
\<close>

definition env_slow :: env where
  "env_slow = env0\<lparr>service_completed := (\<lambda>tr. 2 \<le> length (filter is_poll tr))\<rparr>"

definition env_initctl :: env where
  "env_initctl = env0\<lparr>systemf := (\<lambda>tr c. if c = ''initctl -b runlevel 3'' then 0 else 1)\<rparr>"

definition env_version :: env where
  "env_version = env0\<lparr>getopt := (\<lambda>argv. (''v'', 2, argv))\<rparr>"

definition env_help :: env where
  "env_help = env0\<lparr>getopt := (\<lambda>argv. (''h'', 2, argv))\<rparr>"

text \<open>
  An fstab of three entries, listed with the later pass first, in surroundings where
  \<^verbatim>\<open>/sbin/sulogin\<close> is found: once with a check of \<^verbatim>\<open>/dev/sda2\<close> that fails with 4,
  once with a check of \<^verbatim>\<open>/dev/sda1\<close> that corrects errors and returns 1.
\<close>

definition m_proc :: mntent where
  "m_proc = \<lparr>mnt_fsname = ''proc'', mnt_dir = ''/proc'', mnt_type = ''proc'',
             mnt_opts = ''defaults'', mnt_freq = 0, mnt_passno = 0\<rparr>"

definition m_home :: mntent where
  "m_home = \<lparr>mnt_fsname = ''/dev/sda2'', mnt_dir = ''/home'', mnt_type = ''ext4'',
             mnt_opts = ''defaults'', mnt_freq = 0, mnt_passno = 2\<rparr>"

definition m_root :: mntent where
  "m_root = \<lparr>mnt_fsname = ''/dev/sda1'', mnt_dir = ''/'', mnt_type = ''ext4'',
             mnt_opts = ''defaults'', mnt_freq = 0, mnt_passno = 1\<rparr>"

definition env_fstab :: env where
  "env_fstab = env0\<lparr>setmntent := (\<lambda>tr. Some [m_proc, m_home, m_root]),
                     is_blk := (\<lambda>tr d. d \<noteq> ''proc''),
                     which := (\<lambda>tr c. if c = ''/sbin/sulogin'' then Some c else None),
                     access_x := (\<lambda>tr p. True)\<rparr>"

definition env_bad :: env where
  "env_bad = env_fstab\<lparr>run_interactive := (\<lambda>tr c. if c = ''fsck -a /dev/sda2'' then 4 else 0)\<rparr>"

definition env_fixed :: env where
  "env_fixed = env_fstab\<lparr>run_interactive := (\<lambda>tr c. if c = ''fsck -a /dev/sda1'' then 1 else 0)\<rparr>"

section \<open>Properties of the parser of finit.conf\<close>

subsection \<open>Each keyword reaches its own handler\<close>

lemmas match_defs = parse_line_def if_match_def MATCH_CMD_def

lemma parse_line_check:
  "parse_line E (''check '' @ x) st =
     run_cmd E ''/sbin/fsck -C -a '' ''Checking file system '' x st"
  by (simp add: match_defs)

lemma parse_line_user:
  "parse_line E (''user '' @ x) st = st\<lparr>username := strdup E (strip_line x)\<rparr>"
  by (simp add: match_defs)

lemma parse_line_host:
  "parse_line E (''host '' @ x) st = st\<lparr>hostname := strdup E (strip_line x)\<rparr>"
  by (simp add: match_defs)

lemma parse_line_module:
  "parse_line E (''module '' @ x) st =
     run_cmd E ''/sbin/modprobe '' ''Loading kernel module '' x st"
  by (simp add: match_defs)

lemma parse_line_mknod:
  "parse_line E (''mknod '' @ x) st =
     run_cmd E ''/bin/mknod '' ''Creating device node '' x st"
  by (simp add: match_defs)

lemma parse_line_network:
  "parse_line E (''network '' @ x) st = st\<lparr>network := strdup E (strip_line x)\<rparr>"
  by (simp add: match_defs)

lemma parse_line_runparts:
  "parse_line E (''runparts '' @ x) st = st\<lparr>rcsd := strdup E (strip_line x)\<rparr>"
  by (simp add: match_defs)

lemma parse_line_startx:
  "parse_line E (''startx '' @ x) st =
     st\<lparr>actions := actions st @ [Svc_register SVC_CMD_SERVICE (strip_line x) (username st)]\<rparr>"
  by (simp add: match_defs)

lemma parse_line_shutdown:
  "parse_line E (''shutdown '' @ x) st = st\<lparr>sdown := strdup E (strip_line x)\<rparr>"
  by (simp add: match_defs)

lemma parse_line_runlevel:
  "parse_line E (''runlevel '' @ x) st = st\<lparr>cfglevel := runlevel_of E (strip_line x)\<rparr>"
  by (simp add: match_defs)

lemma parse_line_service:
  "parse_line E (''service '' @ x) st =
     st\<lparr>actions := actions st @ [Svc_register SVC_CMD_SERVICE x None]\<rparr>"
  by (simp add: match_defs)

lemma parse_line_task:
  "parse_line E (''task '' @ x) st =
     st\<lparr>actions := actions st @ [Svc_register SVC_CMD_TASK x None]\<rparr>"
  by (simp add: match_defs)

lemma parse_line_run:
  "parse_line E (''run '' @ x) st =
     st\<lparr>actions := actions st @ [Svc_register SVC_CMD_RUN x None]\<rparr>"
  by (simp add: match_defs)

lemma parse_line_console:
  "parse_line E (''console '' @ x) st = st\<lparr>console := strdup E (strip_line x)\<rparr>"
  by (simp add: match_defs)

lemma parse_line_tty:
  "parse_line E (''tty '' @ x) st =
     st\<lparr>actions := actions st @ [Tty_add (strdup E (strip_line x)) 115200]\<rparr>"
  by (simp add: match_defs)

lemma trim_leading_dropWhile: "trim_leading x = dropWhile isblank x"
  by (induction x) auto

lemma cut_comment_takeWhile: "cut_comment x = takeWhile (\<lambda>c. c \<noteq> CHR ''#'') x"
  by (induction x) auto

lemma strip_line_eq:
  "strip_line x = takeWhile (\<lambda>c. c \<noteq> CHR ''#'') (dropWhile isblank x)"
  by (simp add: strip_line_def trim_leading_dropWhile cut_comment_takeWhile)

lemma strip_line_no_hash: "CHR ''#'' \<notin> set (strip_line x)"
  by (auto simp: strip_line_eq dest: set_takeWhileD)

lemma strip_line_no_leading_blank: "strip_line x = [] \<or> \<not> isblank (hd (strip_line x))"
  unfolding strip_line_def by (induction x) auto

lemma run_cmd_actions:
  "actions (run_cmd E prog msg x st) =
     actions st @ [Run_interactive (strlcat prog (strip_line x) (CMD_SIZE E)) (msg @ strip_line x)]"
  by (simp add: run_cmd_def Let_def)

lemma level_clamped:
  fixes l :: "32 word"
  assumes "\<not> l <s 1" "\<not> 9 <s l" "l \<noteq> 6"
  shows "sint l \<in> {1..9} - {6}"
proof -
  have "sint l \<noteq> 6"
  proof
    assume "sint l = 6"
    then have "(word_of_int (sint l) :: 32 word) = word_of_int 6" by simp
    then show False using assms(3) by simp
  qed
  moreover have "1 \<le> sint l" "sint l \<le> 9"
    using assms(1,2) by (simp_all add: word_sless_alt)
  ultimately show ?thesis by simp
qed

lemma runlevel_of_range: "sint (runlevel_of E x) \<in> {1..9} - {6}"
proof -
  define lvl where "lvl = (case snd (strtonum E x 1 9) of
      None \<Rightarrow> ucast (fst (strtonum E x 1 9)) | Some e \<Rightarrow> RUNLEVEL E)"
  have r: "runlevel_of E x = (if lvl <s 1 \<or> 9 <s lvl \<or> lvl = 6 then 2 else lvl)"
    by (simp add: runlevel_of_def Let_def lvl_def)
  show ?thesis
  proof (cases "lvl <s 1 \<or> 9 <s lvl \<or> lvl = 6")
    case True
    then show ?thesis by (simp add: r)
  next
    case False
    then show ?thesis using level_clamped [of lvl] by (simp add: r)
  qed
qed

subsection \<open>The configured level over a whole file\<close>

text \<open>
  No handler but the one of \<^verbatim>\<open>runlevel\<close> assigns \<open>cfglevel\<close>, so a legal level stays
  legal through every line of a file.
\<close>

lemma parse_line_level:
  "cfglevel (parse_line E line st) = cfglevel st \<or>
   (\<exists>x. cfglevel (parse_line E line st) = runlevel_of E x)"
  by (auto simp: parse_line_def if_match_def run_cmd_def Let_def split: option.splits)

lemma parse_line_legal:
  assumes "sint (cfglevel st) \<in> {1..9} - {6}"
  shows "sint (cfglevel (parse_line E line st)) \<in> {1..9} - {6}"
  using parse_line_level [of E line st] assms runlevel_of_range [of E] by metis

lemma parse_lines_legal:
  "sint (cfglevel st) \<in> {1..9} - {6} \<Longrightarrow>
   sint (cfglevel (foldl (\<lambda>s l. parse_line E l s) st ls)) \<in> {1..9} - {6}"
  by (induction ls arbitrary: st) (simp_all add: parse_line_legal del: Diff_iff)

lemma parse_finit_conf_legal:
  assumes "sint (cfglevel st) \<in> {1..9} - {6}" and "parse_finit_conf E fp st = Some st'"
  shows "sint (cfglevel st') \<in> {1..9} - {6}"
proof -
  let ?st = "st\<lparr>username := strdup E (DEFUSER E), hostname := strdup E (DEFHOST E),
                rcsd := strdup E (FINIT_RCSD E)\<rparr>"
  have l: "sint (cfglevel ?st) \<in> {1..9} - {6}" using assms(1) by simp
  show ?thesis
  proof (cases fp)
    case None
    then show ?thesis using assms(2) l by (simp add: parse_finit_conf_def del: Diff_iff)
  next
    case (Some r)
    obtain ls e where r: "r = (ls, e)" by (cases r)
    have "e = At_eof" and "st' = foldl (\<lambda>s l. parse_line E l s) ?st ls"
      using assms(2) Some r by (cases e; simp add: parse_finit_conf_def)+
    then show ?thesis using parse_lines_legal [OF l] by (simp del: Diff_iff)
  qed
qed

subsection \<open>The directives\<close>

text \<open>
  Claim C3. Whatever the argument of a \<^verbatim>\<open>runlevel\<close> directive is, whatever
  \<^verbatim>\<open>strtonum\<close> makes of it and whatever \<^verbatim>\<open>RUNLEVEL\<close> was built in, the configured
  level after the directive is one of 1, 2, 3, 4, 5, 7, 8, 9.
\<close>

theorem runlevel_directive_clamped:
  "sint (cfglevel (parse_line E (''runlevel '' @ x) st)) \<in> {1..9} - {6}"
  unfolding parse_line_runlevel using runlevel_of_range [of E "strip_line x"] by simp

text \<open>
  Claim C5, as amended. The argument is stripped (leading blanks dropped, then cut at
  the first \<open>#\<close>) before it is used by the directives \<^verbatim>\<open>check\<close>, \<^verbatim>\<open>user\<close>,
  \<^verbatim>\<open>host\<close>, \<^verbatim>\<open>module\<close>, \<^verbatim>\<open>mknod\<close>, \<^verbatim>\<open>network\<close>, \<^verbatim>\<open>runparts\<close>,
  \<^verbatim>\<open>startx\<close>, \<^verbatim>\<open>shutdown\<close>, \<^verbatim>\<open>runlevel\<close>, \<^verbatim>\<open>console\<close> and \<^verbatim>\<open>tty\<close>.
  The directives \<^verbatim>\<open>service\<close>, \<^verbatim>\<open>task\<close> and \<^verbatim>\<open>run\<close> hand the text after the
  keyword to \<^verbatim>\<open>svc_register\<close> as it stands.
\<close>

theorem directive_argument_stripping:
  "strip_line x = takeWhile (\<lambda>c. c \<noteq> CHR ''#'') (dropWhile isblank x) \<and>
   CHR ''#'' \<notin> set (strip_line x) \<and>
   (strip_line x = [] \<or> \<not> isblank (hd (strip_line x))) \<and>
   actions (parse_line E (''check '' @ x) st) = actions st @
     [Run_interactive (strlcat ''/sbin/fsck -C -a '' (strip_line x) (CMD_SIZE E))
        (''Checking file system '' @ strip_line x)] \<and>
   parse_line E (''user '' @ x) st = st\<lparr>username := strdup E (strip_line x)\<rparr> \<and>
   parse_line E (''host '' @ x) st = st\<lparr>hostname := strdup E (strip_line x)\<rparr> \<and>
   actions (parse_line E (''module '' @ x) st) = actions st @
     [Run_interactive (strlcat ''/sbin/modprobe '' (strip_line x) (CMD_SIZE E))
        (''Loading kernel module '' @ strip_line x)] \<and>
   actions (parse_line E (''mknod '' @ x) st) = actions st @
     [Run_interactive (strlcat ''/bin/mknod '' (strip_line x) (CMD_SIZE E))
        (''Creating device node '' @ strip_line x)] \<and>
   parse_line E (''network '' @ x) st = st\<lparr>network := strdup E (strip_line x)\<rparr> \<and>
   parse_line E (''runparts '' @ x) st = st\<lparr>rcsd := strdup E (strip_line x)\<rparr> \<and>
   parse_line E (''startx '' @ x) st = st\<lparr>actions := actions st @
     [Svc_register SVC_CMD_SERVICE (strip_line x) (username st)]\<rparr> \<and>
   parse_line E (''shutdown '' @ x) st = st\<lparr>sdown := strdup E (strip_line x)\<rparr> \<and>
   parse_line E (''runlevel '' @ x) st = st\<lparr>cfglevel := runlevel_of E (strip_line x)\<rparr> \<and>
   parse_line E (''console '' @ x) st = st\<lparr>console := strdup E (strip_line x)\<rparr> \<and>
   parse_line E (''tty '' @ x) st = st\<lparr>actions := actions st @
     [Tty_add (strdup E (strip_line x)) 115200]\<rparr> \<and>
   parse_line E (''service '' @ x) st = st\<lparr>actions := actions st @
     [Svc_register SVC_CMD_SERVICE x None]\<rparr> \<and>
   parse_line E (''task '' @ x) st = st\<lparr>actions := actions st @
     [Svc_register SVC_CMD_TASK x None]\<rparr> \<and>
   parse_line E (''run '' @ x) st = st\<lparr>actions := actions st @
     [Svc_register SVC_CMD_RUN x None]\<rparr>"
  unfolding parse_line_check parse_line_user parse_line_host parse_line_module
    parse_line_mknod parse_line_network parse_line_runparts parse_line_startx
    parse_line_shutdown parse_line_runlevel parse_line_console parse_line_tty
    parse_line_service parse_line_task parse_line_run run_cmd_actions
  using strip_line_eq [of x] strip_line_no_hash [of x] strip_line_no_leading_blank [of x]
  by simp

text \<open>
  Claim C5 as it was stated fails: a \<^verbatim>\<open>service\<close> line with a blank before the
  program and a comment after it registers exactly that text, while the stripped
  argument would be shorter at both ends.
\<close>

theorem service_argument_not_stripped:
  "actions (parse_line conf_env0 ''service  /sbin/sshd -D # secure shell'' conf0) =
     [Svc_register SVC_CMD_SERVICE '' /sbin/sshd -D # secure shell'' None] \<and>
   strip_line '' /sbin/sshd -D # secure shell'' = ''/sbin/sshd -D ''"
  by (simp add: match_defs conf0_def strip_line_def isblank_def)

text \<open>
  Claim C6. A line that begins with \<^verbatim>\<open>runlevel\<close> and a space only sets the
  configured level: no service is registered and nothing else changes. A line that
  begins with \<^verbatim>\<open>run\<close> and a space registers the rest of the line as a service of
  kind \<^verbatim>\<open>run\<close>.
\<close>

theorem run_and_runlevel_dispatch:
  "parse_line E (''runlevel '' @ x) st = st\<lparr>cfglevel := runlevel_of E (strip_line x)\<rparr> \<and>
   actions (parse_line E (''runlevel '' @ x) st) = actions st \<and>
   parse_line E (''run '' @ x) st =
     st\<lparr>actions := actions st @ [Svc_register SVC_CMD_RUN x None]\<rparr>"
  unfolding parse_line_runlevel parse_line_run by simp

section \<open>Properties of the watcher\<close>

lemma iwatch_add_cases:
  assumes "iwatch_add E iw file msk w = (r, iw', w')"
  shows "(r = - 1 \<and> iw' = iw) \<or> (r = 0 \<and> \<not> fexist E file \<and> iw' = iw) \<or>
         (r = 0 \<and> fexist E file \<and> fd iw' = fd iw \<and> (\<exists>n. iwp_list iw' = n # iwp_list iw))"
  using assms
  by (auto simp: iwatch_add_def Let_def split: if_splits option.splits)

text \<open>
  Claim C9. The flag \<open>initialized\<close> is off at the start, off after
  \<^verbatim>\<open>iwatch_exit\<close>, and a failing \<^verbatim>\<open>iwatch_init\<close> leaves it as it was. While it is
  off, \<^verbatim>\<open>iwatch_add\<close> and \<^verbatim>\<open>iwatch_del\<close> return -1, the two searches return
  NULL, and neither the watcher structure nor the module state (flag and system calls
  made) changes.
\<close>

theorem uninitialized_watcher_fails:
  "\<not> initialized world0 \<and>
   \<not> initialized (snd (iwatch_exit iw0 w0)) \<and>
   (fst (iwatch_init E0 iwo w) < 0 \<longrightarrow>
      initialized (snd (snd (iwatch_init E0 iwo w))) = initialized w) \<and>
   (\<not> initialized w \<longrightarrow>
      iwatch_add E iw file msk w = (- 1, iw, w) \<and>
      iwatch_del iw iwp w = (- 1, iw, w) \<and>
      iwatch_find_by_wd iw d w = None \<and>
      iwatch_find_by_path iw file w = None)"
  by (simp add: world0_def iwatch_exit_def iwatch_init_def Let_def iwatch_add_def iwatch_del_def
      iwatch_find_by_wd_def iwatch_find_by_path_def split: option.splits)

text \<open>The same on a watcher whose \<^verbatim>\<open>inotify_init1\<close> failed.\<close>

theorem uninitialized_watcher_fails_witness:
  "fst (iwatch_init (iw_env_ok\<lparr>inotify_init1 := - 1\<rparr>) (Some iw_blank) world0) < 0 \<and>
   \<not> initialized (snd (snd (iwatch_init (iw_env_ok\<lparr>inotify_init1 := - 1\<rparr>) (Some iw_blank) world0))) \<and>
   \<not> initialized world0 \<and>
   iwatch_add iw_env_ok iw_blank ''/run/a.pid'' 0 world0 = (- 1, iw_blank, world0) \<and>
   iwatch_del iw_blank (7, \<lparr>path = ''/run/a.pid'', wd = 1\<rparr>) world0 = (- 1, iw_blank, world0) \<and>
   iwatch_find_by_wd iw_blank 1 world0 = None \<and>
   iwatch_find_by_path iw_blank ''/run/a.pid'' world0 = None"
  using uninitialized_watcher_fails [of iw_blank world0 "iw_env_ok\<lparr>inotify_init1 := - 1\<rparr>"
      "Some iw_blank" world0 iw_env_ok iw_blank "''/run/a.pid''" 0 "(7, \<lparr>path = ''/run/a.pid'', wd = 1\<rparr>)" 1]
  by (simp add: world0_def iwatch_init_def iw_env_ok_def iw_blank_def)

text \<open>
  Claim C10. \<^verbatim>\<open>iwatch_add\<close> returns -1 or 0. When it returns -1, and when the path
  does not exist, the list of watched paths is the one before the call. The list gets
  one new entry at its head exactly when the call returns 0 for a path that exists, and
  is unchanged in every other case.
\<close>

theorem iwatch_add_atomic:
  assumes "iwatch_add E iw file msk w = (r, iw', w')"
  shows "(r = - 1 \<or> r = 0) \<and> fd iw' = fd iw \<and>
         (r = - 1 \<longrightarrow> iwp_list iw' = iwp_list iw) \<and>
         (\<not> fexist E file \<longrightarrow> iwp_list iw' = iwp_list iw) \<and>
         ((\<exists>n. iwp_list iw' = n # iwp_list iw) \<longleftrightarrow> r = 0 \<and> fexist E file) \<and>
         (iwp_list iw' = iwp_list iw \<longleftrightarrow> \<not> (r = 0 \<and> fexist E file))"
  using iwatch_add_cases [OF assms] by auto

text \<open>
  A call that succeeds and inserts, and a call that fails for lack of memory after the
  kernel had accepted the watch.
\<close>

theorem iwatch_add_atomic_witness:
  "iwatch_add iw_env_ok iw_open ''/run/a.pid'' 0 world_up = (0, iw_one, world_one) \<and>
   iwp_list iw_one = (7, \<lparr>path = ''/run/a.pid'', wd = 1\<rparr>) # iwp_list iw_open \<and>
   fexist iw_env_ok ''/run/a.pid'' \<and>
   fst (iwatch_add iw_env_nomem iw_one ''/run/b.pid'' 0 world_one) = - 1 \<and>
   iwp_list (fst (snd (iwatch_add iw_env_nomem iw_one ''/run/b.pid'' 0 world_one))) = iwp_list iw_one"
proof -
  have a: "iwatch_add iw_env_ok iw_open ''/run/a.pid'' 0 world_up = (0, iw_one, world_one)"
    by (simp add: iwatch_add_def iw_env_ok_def iw_open_def world_up_def iw_one_def world_one_def)
  obtain r iw' w' where b: "iwatch_add iw_env_nomem iw_one ''/run/b.pid'' 0 world_one = (r, iw', w')"
    using prod_cases3 by blast
  have r: "r = - 1"
    using b by (simp add: iwatch_add_def iw_env_nomem_def iw_env_ok_def world_one_def iw_one_def)
  show ?thesis
    using iwatch_add_atomic [OF a] iwatch_add_atomic [OF b] a b r
    by (simp add: iw_env_ok_def iw_one_def iw_open_def)
qed

text \<open>
  Claim C7, as amended. On an initialised watcher, \<^verbatim>\<open>iwatch_add\<close> of a path that
  does not exist returns 0 and changes neither the watcher nor the module state; a
  search for that path afterwards finds nothing provided no entry of the list had that
  path before the call.
\<close>

theorem iwatch_add_missing_path:
  assumes "initialized w" and "\<not> fexist E file"
  shows "iwatch_add E iw file msk w = (0, iw, w) \<and>
         ((\<forall>n \<in> set (iwp_list iw). path (snd n) \<noteq> file) \<longrightarrow>
            iwatch_find_by_path iw file w = None)"
  using assms by (auto simp: iwatch_add_def iwatch_find_by_path_def find_None_iff)

text \<open>
  An initialised watcher that watches \<^verbatim>\<open>/run/a.pid\<close>, and the path
  \<^verbatim>\<open>/run/b.pid\<close>, which does not exist.
\<close>

theorem iwatch_add_missing_path_witness:
  "initialized world_one \<and> \<not> fexist iw_env_gone ''/run/b.pid'' \<and>
   list_all (\<lambda>n. path (snd n) \<noteq> ''/run/b.pid'') (iwp_list iw_one) \<and>
   iwatch_add iw_env_gone iw_one ''/run/b.pid'' 0 world_one = (0, iw_one, world_one) \<and>
   iwatch_find_by_path iw_one ''/run/b.pid'' world_one = None"
  using iwatch_add_missing_path [of world_one iw_env_gone "''/run/b.pid''" iw_one 0]
  by (simp add: world_one_def iw_env_gone_def iw_one_def)

text \<open>
  Claim C7 as it was stated fails twice. Before \<^verbatim>\<open>iwatch_init\<close>, adding a path that
  does not exist returns -1, not 0. And when a path was added while it existed and is
  added again after the file is gone, the call returns 0 and leaves the list alone, so
  the search for that path still finds the earlier entry.
\<close>

theorem iwatch_add_missing_path_counterexample:
  "\<not> fexist iw_env_gone ''/run/a.pid'' \<and>
   iwatch_add iw_env_gone iw_blank ''/run/a.pid'' 0 world0 = (- 1, iw_blank, world0) \<and>
   iwatch_add iw_env_ok iw_open ''/run/a.pid'' 0 world_up = (0, iw_one, world_one) \<and>
   iwatch_add iw_env_gone iw_one ''/run/a.pid'' 0 world_one = (0, iw_one, world_one) \<and>
   iwatch_find_by_path iw_one ''/run/a.pid'' world_one = Some (7, \<lparr>path = ''/run/a.pid'', wd = 1\<rparr>)"
  by (simp add: iwatch_add_def iwatch_find_by_path_def iw_env_gone_def iw_env_ok_def
      iw_blank_def iw_open_def iw_one_def world0_def world_up_def world_one_def)

section \<open>Properties of telinit\<close>

lemma getopt_loop_None:
  "set opts \<inter> {CHR ''v'', CHR ''V'', CHR ''h'', CHR ''?''} = {} \<Longrightarrow> getopt_loop opts tr = None"
  by (induction opts) auto

lemma getopt_loop_Some:
  "set opts \<inter> {CHR ''v'', CHR ''V'', CHR ''h'', CHR ''?''} \<noteq> {} \<Longrightarrow>
     getopt_loop opts tr = Some (0, tr @ [Version_text]) \<or>
     getopt_loop opts tr = Some (0, tr @ [Usage_text])"
  by (induction opts) (auto simp: version_def usage_def)

text \<open>
  Claim C8, as amended. In a process that is not PID 1, when none of the options that
  \<^verbatim>\<open>getopt\<close> delivers asks for the version or the usage text, the first character
  \<open>c\<close> of the first positional argument decides: a digit runs
  \<^verbatim>\<open>initctl -b runlevel c\<close>, \<open>q\<close> or \<open>Q\<close> runs \<^verbatim>\<open>initctl -b reload\<close>, \<open>s\<close> or
  \<open>S\<close> runs \<^verbatim>\<open>initctl -b runlevel c\<close>; the exit status is then the status of that
  command, so 0 when it succeeded. Anything else, and no positional argument at all,
  prints the usage text and exits with 1. When an option does ask for the version or
  the usage text (\<open>v\<close>, \<open>V\<close>, \<open>h\<close>, or the \<open>?\<close> that \<^verbatim>\<open>getopt\<close> also returns for an
  option it does not know), that text is printed and the exit status is 0, whatever the
  positional arguments are.
\<close>

theorem telinit_requests:
  assumes "pid \<noteq> 1"
    and "getopt E argv = (opts, optind, argv')"
    and "c = first_char (argv' ! optind)"
    and "H = {CHR ''v'', CHR ''V'', CHR ''h'', CHR ''?''}"
  shows "(set opts \<inter> H = {} \<and> optind < length argv' \<and> isdigit c \<longrightarrow>
           main E pid argv tr = Some (run_systemf E (''initctl -b runlevel '' @ [c]) tr)) \<and>
         (set opts \<inter> H = {} \<and> optind < length argv' \<and> (c = CHR ''q'' \<or> c = CHR ''Q'') \<longrightarrow>
           main E pid argv tr = Some (run_systemf E ''initctl -b reload'' tr)) \<and>
         (set opts \<inter> H = {} \<and> optind < length argv' \<and> (c = CHR ''s'' \<or> c = CHR ''S'') \<longrightarrow>
           main E pid argv tr = Some (run_systemf E (''initctl -b runlevel '' @ [c]) tr)) \<and>
         (set opts \<inter> H = {} \<and> optind < length argv' \<and> \<not> isdigit c \<and>
            c \<notin> {CHR ''q'', CHR ''Q'', CHR ''s'', CHR ''S''} \<longrightarrow>
           main E pid argv tr = Some (usage 1 tr)) \<and>
         (set opts \<inter> H = {} \<and> length argv' \<le> optind \<longrightarrow>
           main E pid argv tr = Some (usage 1 tr)) \<and>
         (set opts \<inter> H \<noteq> {} \<longrightarrow>
           main E pid argv tr = Some (0, tr @ [Version_text]) \<or>
           main E pid argv tr = Some (0, tr @ [Usage_text])) \<and>
         run_systemf E cmd tr = (systemf E tr cmd, tr @ [Systemf cmd (systemf E tr cmd)]) \<and>
         usage 1 tr = (1, tr @ [Usage_text])"
proof -
  have d: "\<not> isdigit (CHR ''q'')" "\<not> isdigit (CHR ''Q'')" "\<not> isdigit (CHR ''s'')" "\<not> isdigit (CHR ''S'')"
    by (simp_all add: isdigit_def)
  have t: "main E pid argv tr =
      Some (if optind < length argv' then
        (if isdigit c then run_systemf E (''initctl -b runlevel '' @ [c]) tr
         else if c = CHR ''q'' \<or> c = CHR ''Q'' then run_systemf E ''initctl -b reload'' tr
         else if c = CHR ''s'' \<or> c = CHR ''S'' then run_systemf E (''initctl -b runlevel '' @ [c]) tr
         else usage 1 tr)
       else usage 1 tr)"
    if "set opts \<inter> H = {}"
    using assms that by (simp add: main_def telinit_def getopt_loop_None Let_def)
  have h: "main E pid argv tr = Some (0, tr @ [Version_text]) \<or>
      main E pid argv tr = Some (0, tr @ [Usage_text])"
    if "set opts \<inter> H \<noteq> {}"
    using getopt_loop_Some [of opts tr] assms that by (auto simp: main_def telinit_def)
  show ?thesis
    using t h d by (auto simp: run_systemf_def usage_def)
qed

text \<open>
  \<^verbatim>\<open>telinit 3\<close> with an \<^verbatim>\<open>initctl\<close> that succeeds, \<^verbatim>\<open>telinit Q\<close> with
  one that fails, \<^verbatim>\<open>telinit s\<close>, \<^verbatim>\<open>telinit x\<close>, \<^verbatim>\<open>telinit\<close> alone and
  \<^verbatim>\<open>telinit -v 3\<close>.
\<close>

theorem telinit_requests_witness:
  "main env_initctl 4711 [''telinit'', ''3''] [] = Some (0, [Systemf ''initctl -b runlevel 3'' 0]) \<and>
   main env_initctl 4711 [''telinit'', ''Q''] [] = Some (1, [Systemf ''initctl -b reload'' 1]) \<and>
   main env0 4711 [''telinit'', ''s''] [] = Some (0, [Systemf ''initctl -b runlevel s'' 0]) \<and>
   main env0 4711 [''telinit'', ''x''] [] = Some (1, [Usage_text]) \<and>
   main env0 4711 [''telinit''] [] = Some (1, [Usage_text]) \<and>
   main env_version 4711 [''telinit'', ''-v'', ''3''] [] = Some (0, [Version_text])"
proof -
  have g: "getopt env0 argv = ([], 1, argv)" "getopt env_initctl argv = ([], 1, argv)"
     "getopt env_version argv = (''v'', 2, argv)" for argv
    by (simp_all add: env0_def env_initctl_def env_version_def)
  have p: "(4711::int) \<noteq> 1" by simp
  have r: "systemf env_initctl [] ''initctl -b runlevel 3'' = 0"
    "systemf env_initctl [] ''initctl -b reload'' = 1"
    "systemf env0 [] ''initctl -b runlevel s'' = 0"
    by (simp_all add: env0_def env_initctl_def)
  have w1: "main env_initctl 4711 [''telinit'', ''3''] [] =
      Some (0, [Systemf ''initctl -b runlevel 3'' 0])"
    using telinit_requests [OF p g(2) refl refl, of "[''telinit'', ''3'']" "[]"] r
    by (simp add: first_char_def isdigit_def)
  have w2: "main env_initctl 4711 [''telinit'', ''Q''] [] =
      Some (1, [Systemf ''initctl -b reload'' 1])"
    using telinit_requests [OF p g(2) refl refl, of "[''telinit'', ''Q'']" "[]"] r
    by (simp add: first_char_def isdigit_def)
  have w3: "main env0 4711 [''telinit'', ''s''] [] = Some (0, [Systemf ''initctl -b runlevel s'' 0])"
    using telinit_requests [OF p g(1) refl refl, of "[''telinit'', ''s'']" "[]"] r
    by (simp add: first_char_def isdigit_def)
  have w4: "main env0 4711 [''telinit'', ''x''] [] = Some (1, [Usage_text])"
    using telinit_requests [OF p g(1) refl refl, of "[''telinit'', ''x'']" "[]"]
    by (simp add: first_char_def isdigit_def)
  have w5: "main env0 4711 [''telinit''] [] = Some (1, [Usage_text])"
    using telinit_requests [OF p g(1) refl refl, of "[''telinit'']" "[]"]
    by simp
  have v: "main env_version 4711 [''telinit'', ''-v'', ''3''] [] \<noteq> Some (0, [Usage_text])"
    by (simp add: main_def telinit_def version_def env_version_def env0_def)
  have w6: "main env_version 4711 [''telinit'', ''-v'', ''3''] [] = Some (0, [Version_text])"
    using telinit_requests [OF p g(3) refl refl, of "[''telinit'', ''-v'', ''3'']" "[]"] v
    by simp
  show ?thesis using w1 w2 w3 w4 w5 w6 by blast
qed

text \<open>
  Claim C8 as it was stated fails: \<^verbatim>\<open>telinit -h\<close> gives no command, yet it prints the
  usage text and exits with 0; and \<^verbatim>\<open>telinit -h 3\<close> has the positional argument 3,
  yet no runlevel command is run.
\<close>

theorem telinit_help_counterexample:
  "getopt env_help [''telinit'', ''-h''] = (''h'', 2, [''telinit'', ''-h'']) \<and>
   main env_help 4711 [''telinit'', ''-h''] [] = Some (0, [Usage_text]) \<and>
   getopt env_help [''telinit'', ''-h'', ''3''] = (''h'', 2, [''telinit'', ''-h'', ''3'']) \<and>
   first_char ([''telinit'', ''-h'', ''3''] ! 2) = CHR ''3'' \<and>
   main env_help 4711 [''telinit'', ''-h'', ''3''] [] = Some (0, [Usage_text])"
  by (simp add: main_def telinit_def usage_def env_help_def env0_def first_char_def)

section \<open>Properties of the bootstrap wait\<close>

lemma wait_ms_append: "wait_ms (xs @ ys) = wait_ms xs + wait_ms ys"
  by (induction xs rule: wait_ms.induct) simp_all

lemma unfinished_polls: "filter is_poll (unfinished k) = replicate k (Service_completed False)"
  by (induction k) (simp_all add: worker_start_def)

lemma unfinished_reschedules: "count_list (unfinished k) (Schedule_work bootstrap_work) = k"
  by (induction k) (simp_all add: worker_start_def)

lemma unfinished_no_final: "Schedule_work final \<notin> set (unfinished k)"
  by (induction k) (simp_all add: worker_start_def final_def bootstrap_work_def)

lemma unfinished_wait: "wait_ms (unfinished k) = 100 * int k"
  by (induction k) (simp_all add: worker_start_def bootstrap_work_def)

lemma bootstrap_finish_tail:
  "\<exists>rest. bootstrap_finish E t = t @ Schedule_work final # rest \<and>
     list_all (\<lambda>e. \<not> is_poll e \<and> \<not> is_schedule e) rest"
  by (simp add: bootstrap_finish_def Let_def split: option.splits)

lemma bootstrap_wait_exact:
  "\<exists>k. int k \<le> max 0 cnt \<and>
     (\<forall>j<k. \<not> service_completed E (asked tr0 j)) \<and>
     (int k < cnt \<longrightarrow> service_completed E (asked tr0 k)) \<and>
     bootstrap_wait E cnt tr0 =
       (cnt - 1 - int k,
        bootstrap_finish E (asked tr0 k @ (if int k < cnt then [Service_completed True] else [])))"
proof (induction E cnt tr0 rule: bootstrap_wait.induct)
  case (1 E cnt tr0)
  have a0: "asked tr0 0 = tr0 @ [Conf_monitor, Service_init, Service_step_all]"
    by (simp add: asked_def worker_start_def)
  show ?case
  proof (cases "0 < cnt")
    case False
    have w: "bootstrap_worker E bootstrap_work cnt tr0 =
        (False, cnt - 1, bootstrap_finish E (asked tr0 0))"
      using False by (simp add: bootstrap_worker_def a0)
    have "bootstrap_wait E cnt tr0 = (cnt - 1 - int 0, bootstrap_finish E (asked tr0 0 @
        (if int 0 < cnt then [Service_completed True] else [])))"
      using False by (subst bootstrap_wait.simps) (simp add: w)
    then show ?thesis using False by (intro exI [of _ 0]) simp
  next
    case True
    show ?thesis
    proof (cases "service_completed E (asked tr0 0)")
      case compl: True
      have w: "bootstrap_worker E bootstrap_work cnt tr0 =
          (False, cnt - 1, bootstrap_finish E (asked tr0 0 @ [Service_completed True]))"
        using True compl by (simp add: bootstrap_worker_def Let_def a0)
      have "bootstrap_wait E cnt tr0 = (cnt - 1 - int 0, bootstrap_finish E (asked tr0 0 @
          (if int 0 < cnt then [Service_completed True] else [])))"
        using True by (subst bootstrap_wait.simps) (simp add: w)
      then show ?thesis using True compl by (intro exI [of _ 0]) simp
    next
      case busy: False
      let ?tr = "tr0 @ [Conf_monitor, Service_init, Service_step_all, Service_completed False,
          Schedule_work bootstrap_work]"
      have w: "bootstrap_worker E bootstrap_work cnt tr0 = (True, cnt - 1, ?tr)"
        using True busy by (simp add: bootstrap_worker_def Let_def a0)
      have shift: "asked ?tr j = asked tr0 (Suc j)" for j
        by (simp add: asked_def worker_start_def)
      obtain k where ih: "int k \<le> max 0 (cnt - 1)"
        "\<forall>j<k. \<not> service_completed E (asked ?tr j)"
        "int k < cnt - 1 \<longrightarrow> service_completed E (asked ?tr k)"
        "bootstrap_wait E (cnt - 1) ?tr =
           (cnt - 1 - 1 - int k,
            bootstrap_finish E (asked ?tr k @ (if int k < cnt - 1 then [Service_completed True] else [])))"
        using "1.IH" [OF w [symmetric] refl refl] by blast
      have no: "\<not> service_completed E (asked tr0 j)" if "j < Suc k" for j
      proof (cases j)
        case 0
        then show ?thesis using busy by simp
      next
        case (Suc i)
        then show ?thesis using ih(2) that shift by auto
      qed
      have "bootstrap_wait E cnt tr0 = bootstrap_wait E (cnt - 1) ?tr"
        by (subst bootstrap_wait.simps) (simp add: w)
      then have "bootstrap_wait E cnt tr0 =
          (cnt - 1 - int (Suc k),
           bootstrap_finish E (asked tr0 (Suc k) @
             (if int (Suc k) < cnt then [Service_completed True] else [])))"
        using ih(4) shift by simp
      moreover have "int (Suc k) \<le> max 0 cnt" using ih(1) True by simp
      moreover have "int (Suc k) < cnt \<longrightarrow> service_completed E (asked tr0 (Suc k))"
        using ih(3) shift by simp
      ultimately show ?thesis using no by (intro exI [of _ "Suc k"]) blast
    qed
  qed
qed

text \<open>
  Claim C2. Whatever \<^verbatim>\<open>service_completed\<close> answers, and from any history \<open>tr0\<close>,
  there is a number \<open>k\<close> of at most 1200 such that the worker, which \<^verbatim>\<open>main\<close>
  schedules with a delay of 100 ms, asked in each of its first \<open>k\<close> invocations, heard
  that the bootstrap is not complete, and scheduled itself again; and unless \<open>k\<close> is
  1200, the answer in invocation \<open>k + 1\<close> was that it is complete. Invocation \<open>k + 1\<close>
  is the last: after its first three calls, and after that answer if it still asked (at
  the 1201st invocation the counter is used up and it does not ask), it schedules
  \<open>final\<close>, and nothing is asked or scheduled after that. So \<open>final\<close> is scheduled
  at the first answer that the bootstrap is complete, and without such an answer after
  1200 questions. Before it there are \<open>k\<close> questions answered no, \<open>k\<close> reschedules and
  no other scheduling of \<open>final\<close>; the rescheduled work items waited 100 ms each, at
  most 120 s in all.
\<close>

theorem bootstrap_wait_finalizes:
  "\<exists>k rest. k \<le> 1200 \<and>
     (\<forall>j<k. \<not> service_completed E (asked tr0 j)) \<and>
     (k < 1200 \<longrightarrow> service_completed E (asked tr0 k)) \<and>
     bootstrap_wait E cnt_init tr0 =
       (cnt_init - 1 - int k,
        bootstrap_finish E (asked tr0 k @ (if k < 1200 then [Service_completed True] else []))) \<and>
     bootstrap_finish E (asked tr0 k @ (if k < 1200 then [Service_completed True] else [])) =
       tr0 @ unfinished k @ worker_start @ (if k < 1200 then [Service_completed True] else []) @
       Schedule_work final # rest \<and>
     list_all (\<lambda>e. \<not> is_poll e \<and> \<not> is_schedule e) rest \<and>
     filter is_poll (unfinished k) = replicate k (Service_completed False) \<and>
     filter is_poll worker_start = [] \<and>
     length (filter is_poll (unfinished k @ worker_start @
       (if k < 1200 then [Service_completed True] else []))) \<le> 1200 \<and>
     count_list (unfinished k) (Schedule_work bootstrap_work) = k \<and>
     Schedule_work final \<notin> set (unfinished k @ worker_start) \<and>
     wait_ms (unfinished k @ worker_start) = 100 * int k \<and>
     100 * int k \<le> 120000"
proof -
  obtain k where k: "int k \<le> max 0 cnt_init"
     "\<forall>j<k. \<not> service_completed E (asked tr0 j)"
     "int k < cnt_init \<longrightarrow> service_completed E (asked tr0 k)"
     "bootstrap_wait E cnt_init tr0 =
       (cnt_init - 1 - int k,
        bootstrap_finish E (asked tr0 k @ (if int k < cnt_init then [Service_completed True] else [])))"
    using bootstrap_wait_exact [of cnt_init E tr0] by blast
  have le: "k \<le> 1200" using k(1) by (simp add: cnt_init_def)
  have lt: "(int k < cnt_init) = (k < 1200)" by (simp add: cnt_init_def)
  let ?T = "asked tr0 k @ (if k < 1200 then [Service_completed True] else [])"
  obtain rest where rest: "bootstrap_finish E ?T = ?T @ Schedule_work final # rest"
     "list_all (\<lambda>e. \<not> is_poll e \<and> \<not> is_schedule e) rest"
    using bootstrap_finish_tail [of E ?T] by blast
  have r: "bootstrap_finish E ?T =
       tr0 @ unfinished k @ worker_start @ (if k < 1200 then [Service_completed True] else []) @
       Schedule_work final # rest"
    using rest(1) by (simp add: asked_def)
  have ws: "filter is_poll worker_start = []" "Schedule_work final \<notin> set worker_start"
    "wait_ms worker_start = 0"
    by (simp_all add: worker_start_def)
  have "Schedule_work final \<notin> set (unfinished k @ worker_start)"
    using unfinished_no_final [of k] ws(2) by simp
  moreover have "wait_ms (unfinished k @ worker_start) = 100 * int k"
    using unfinished_wait [of k] ws(3) by (simp add: wait_ms_append)
  moreover have "100 * int k \<le> 120000" using le by simp
  moreover have "length (filter is_poll (unfinished k @ worker_start @
       (if k < 1200 then [Service_completed True] else []))) \<le> 1200"
    using le by (simp add: unfinished_polls ws(1))
  ultimately show ?thesis
    using le k(2) k(3) k(4) r rest(2) unfinished_polls [of k] unfinished_reschedules [of k] ws(1)
    unfolding lt by (intro exI [of _ k] exI [of _ rest]) simp
qed

text \<open>
  A bootstrap that is complete at the third question: two invocations wait, the third
  schedules \<open>final\<close> and changes to runlevel 2.
\<close>

theorem bootstrap_wait_finalizes_witness:
  "\<not> service_completed env_slow (asked [] 0) \<and>
   \<not> service_completed env_slow (asked [] 1) \<and>
   service_completed env_slow (asked [] 2) \<and>
   bootstrap_wait env_slow cnt_init [] =
     (1197,
      [Conf_monitor, Service_init, Service_step_all, Service_completed False,
       Schedule_work bootstrap_work,
       Conf_monitor, Service_init, Service_step_all, Service_completed False,
       Schedule_work bootstrap_work,
       Conf_monitor, Service_init, Service_step_all, Service_completed True,
       Schedule_work final, Service_runlevel 2])"
proof -
  have sc: "service_completed env_slow (asked [] j) = (2 \<le> j)" for j
    by (simp add: env_slow_def env0_def asked_def unfinished_polls worker_start_def)
  obtain k where k: "k \<le> 1200" "\<forall>j<k. \<not> service_completed env_slow (asked [] j)"
     "k < 1200 \<longrightarrow> service_completed env_slow (asked [] k)"
     "bootstrap_wait env_slow cnt_init [] =
       (cnt_init - 1 - int k,
        bootstrap_finish env_slow (asked [] k @ (if k < 1200 then [Service_completed True] else [])))"
    using bootstrap_wait_finalizes [of env_slow "[]"] by blast
  have "\<not> 2 < k" using k(2) sc by auto
  moreover have "2 \<le> k" using k(3) calculation sc by auto
  ultimately have k2: "k = 2" by simp
  have "bootstrap_wait env_slow cnt_init [] =
      (cnt_init - 1 - 2, bootstrap_finish env_slow (asked [] 2 @ [Service_completed True]))"
    using k(4) unfolding k2 by simp
  then show ?thesis
    by (simp add: sc cnt_init_def asked_def numeral_2_eq_2 worker_start_def bootstrap_finish_def
        env_slow_def env0_def)
qed

section \<open>Properties of the file system checks\<close>

subsection \<open>Recovery never returns\<close>

lemma sulogin_loop_shape:
  "\<exists>x sh. sulogin_loop E cs rc tr = (x, tr @ sh) \<and>
     ((sh = [] \<and> x = rc) \<or> (\<exists>p. sh = [Systemf p x]))"
  by (induction cs) (auto simp: run_systemf_def split: option.splits)

lemma sulogin_reboots:
  "\<exists>x sh. sulogin E True tr = (Exit x, tr @ sh @ [Do_shutdown SHUT_REBOOT]) \<and>
     (sh = [] \<or> (\<exists>p. sh = [Systemf p x]))"
proof -
  obtain x sh where l: "sulogin_loop E [PATH_SULOGIN E, ''sulogin''] EX_OSFILE tr = (x, tr @ sh)"
    "(sh = [] \<and> x = EX_OSFILE) \<or> (\<exists>p. sh = [Systemf p x])"
    using sulogin_loop_shape by blast
  then show ?thesis by (auto simp: sulogin_def)
qed

lemma sulogin_no_return:
  "(case sulogin E True tr of (Exit x, tr2) \<Rightarrow> (Exit x, tr2) | (Return x, tr2) \<Rightarrow> K x tr2) =
     sulogin E True tr"
  using sulogin_reboots [of E tr] by auto

subsection \<open>One step of the loop over the fstab\<close>

lemma fsck_loop_skip:
  assumes "mnt_passno mnt = 0 \<or> mnt_passno mnt \<noteq> pass \<or> fsck_dev E mnt tr = None \<or>
    ismnt_rw E tr (mnt_dir mnt)"
  shows "fsck_loop E pass (mnt # ms) rc tr = fsck_loop E pass ms rc tr"
  using assms by (auto split: option.splits)

lemma fsck_loop_run:
  assumes "mnt_passno mnt = pass" "pass \<noteq> 0" "fsck_dev E mnt tr = Some dev"
    "\<not> ismnt_rw E tr (mnt_dir mnt)"
  shows "fsck_loop E pass (mnt # ms) rc tr =
     (let c = run_interactive E tr (fsck_cmd E dev);
          tr1 = tr @ [Fsck_run pass mnt (fsck_cmd E dev) c]
      in if 2 \<le> c then
           sulogin E True (tr1 @ [Log (''Failed fsck '' @ dev @ '', attempting sulogin ...'')])
         else fsck_loop E pass ms (rc + c) tr1)"
proof -
  have "(1 < c) = (2 \<le> c)" for c :: int by auto
  then show ?thesis using assms by (simp add: Let_def sulogin_no_return)
qed

subsection \<open>Invariants of the loops\<close>

text \<open>
  To show that a property \<open>I\<close> of the events holds when \<^verbatim>\<open>fsck(pass)\<close> returns, and
  a property \<open>Q\<close> when it ends the process, it is enough that a check with a result of
  at most 1 keeps \<open>I\<close>, and that the events of a recovery establish \<open>Q\<close>.
\<close>

lemma fsck_loop_rule:
  assumes "I tr"
    and s: "\<And>t mnt dev c. \<lbrakk>I t; mnt_passno mnt = pass; c \<le> 1\<rbrakk>
             \<Longrightarrow> I (t @ [Fsck_run pass mnt (fsck_cmd E dev) c])"
    and f: "\<And>t mnt dev c x sh. \<lbrakk>I t; mnt_passno mnt = pass; 2 \<le> c; sh = [] \<or> (\<exists>p. sh = [Systemf p x])\<rbrakk>
             \<Longrightarrow> Q x (t @ [Fsck_run pass mnt (fsck_cmd E dev) c,
                   Log (''Failed fsck '' @ dev @ '', attempting sulogin ...'')] @ sh @
                   [Do_shutdown SHUT_REBOOT])"
  shows "case fsck_loop E pass ms rc tr of
           (Return r, tr') \<Rightarrow> I tr' | (Exit x, tr') \<Rightarrow> Q x tr'"
  using assms(1)
proof (induction ms arbitrary: rc tr)
  case Nil
  then show ?case by simp
next
  case (Cons mnt ms)
  show ?case
  proof (cases "mnt_passno mnt = 0 \<or> mnt_passno mnt \<noteq> pass \<or> fsck_dev E mnt tr = None \<or>
      ismnt_rw E tr (mnt_dir mnt)")
    case True
    show ?thesis
      unfolding fsck_loop_skip [OF True] using Cons.IH [OF Cons.prems] .
  next
    case False
    then obtain dev where d: "mnt_passno mnt = pass" "pass \<noteq> 0" "fsck_dev E mnt tr = Some dev"
      "\<not> ismnt_rw E tr (mnt_dir mnt)"
      by auto
    define c where "c = run_interactive E tr (fsck_cmd E dev)"
    let ?tr1 = "tr @ [Fsck_run pass mnt (fsck_cmd E dev) c]"
    let ?log = "Log (''Failed fsck '' @ dev @ '', attempting sulogin ...'')"
    have eq: "fsck_loop E pass (mnt # ms) rc tr =
       (if 2 \<le> c then sulogin E True (?tr1 @ [?log]) else fsck_loop E pass ms (rc + c) ?tr1)"
      unfolding fsck_loop_run [OF d] by (simp add: Let_def c_def)
    show ?thesis
    proof (cases "2 \<le> c")
      case True
      obtain x sh where su: "sulogin E True (?tr1 @ [?log]) =
          (Exit x, (?tr1 @ [?log]) @ sh @ [Do_shutdown SHUT_REBOOT])"
        "sh = [] \<or> (\<exists>p. sh = [Systemf p x])"
        using sulogin_reboots by blast
      have "Q x (tr @ [Fsck_run pass mnt (fsck_cmd E dev) c, ?log] @ sh @ [Do_shutdown SHUT_REBOOT])"
        using f [OF Cons.prems d(1) True su(2)] .
      then show ?thesis unfolding eq using True su(1) by simp
    next
      case False
      then have "I ?tr1" using s [OF Cons.prems d(1)] by simp
      then show ?thesis unfolding eq using False Cons.IH by simp
    qed
  qed
qed

lemma fsck_rule:
  assumes "I tr"
    and s: "\<And>t mnt dev c. \<lbrakk>I t; mnt_passno mnt = pass; c \<le> 1\<rbrakk>
             \<Longrightarrow> I (t @ [Fsck_run pass mnt (fsck_cmd E dev) c])"
    and f: "\<And>t mnt dev c x sh. \<lbrakk>I t; mnt_passno mnt = pass; 2 \<le> c; sh = [] \<or> (\<exists>p. sh = [Systemf p x])\<rbrakk>
             \<Longrightarrow> Q x (t @ [Fsck_run pass mnt (fsck_cmd E dev) c,
                   Log (''Failed fsck '' @ dev @ '', attempting sulogin ...'')] @ sh @
                   [Do_shutdown SHUT_REBOOT])"
    and o: "\<And>t x sh. \<lbrakk>I t; sh = [] \<or> (\<exists>p. sh = [Systemf p x])\<rbrakk>
             \<Longrightarrow> Q x (t @ [Log (''Failed opening fstab: '' @ fstab E)] @ sh @
                   [Do_shutdown SHUT_REBOOT])"
  shows "case fsck E pass tr of (Return r, tr') \<Rightarrow> I tr' | (Exit x, tr') \<Rightarrow> Q x tr'"
proof (cases "setmntent E tr")
  case None
  let ?t = "tr @ [Log (''Failed opening fstab: '' @ fstab E)]"
  obtain x sh where su: "sulogin E True ?t = (Exit x, ?t @ sh @ [Do_shutdown SHUT_REBOOT])"
    "sh = [] \<or> (\<exists>p. sh = [Systemf p x])"
    using sulogin_reboots by blast
  have "fsck E pass tr = sulogin E True ?t"
    using None by (simp add: fsck_def sulogin_no_return)
  then have "fsck E pass tr = (Exit x, ?t @ sh @ [Do_shutdown SHUT_REBOOT])"
    using su(1) by (simp only:)
  moreover have "Q x (tr @ [Log (''Failed opening fstab: '' @ fstab E)] @ sh @
      [Do_shutdown SHUT_REBOOT])"
    by (rule o [OF assms(1) su(2)])
  ultimately show ?thesis by simp
next
  case (Some ms)
  then have "fsck E pass tr = fsck_loop E pass ms 0 tr" by (simp add: fsck_def)
  moreover have "case fsck_loop E pass ms 0 tr of
      (Return r, tr') \<Rightarrow> I tr' | (Exit x, tr') \<Rightarrow> Q x tr'"
    by (rule fsck_loop_rule [where I = I and Q = Q and E = E and pass = pass, OF assms(1) s f])
  ultimately show ?thesis by (simp only:)
qed

lemma fsck_passes_rule:
  assumes "I pass tr" and "1 \<le> pass"
    and s: "\<And>p t mnt dev c. \<lbrakk>1 \<le> p; p < 10; I p t; mnt_passno mnt = p; c \<le> 1\<rbrakk>
             \<Longrightarrow> I p (t @ [Fsck_run p mnt (fsck_cmd E dev) c])"
    and f: "\<And>p t mnt dev c x sh. \<lbrakk>1 \<le> p; p < 10; I p t; mnt_passno mnt = p; 2 \<le> c;
              sh = [] \<or> (\<exists>q. sh = [Systemf q x])\<rbrakk>
             \<Longrightarrow> Q x (t @ [Fsck_run p mnt (fsck_cmd E dev) c,
                   Log (''Failed fsck '' @ dev @ '', attempting sulogin ...'')] @ sh @
                   [Do_shutdown SHUT_REBOOT])"
    and o: "\<And>p t x sh. \<lbrakk>1 \<le> p; p < 10; I p t; sh = [] \<or> (\<exists>q. sh = [Systemf q x])\<rbrakk>
             \<Longrightarrow> Q x (t @ [Log (''Failed opening fstab: '' @ fstab E)] @ sh @
                   [Do_shutdown SHUT_REBOOT])"
    and m: "\<And>p t. \<lbrakk>1 \<le> p; I p t\<rbrakk> \<Longrightarrow> I (p + 1) t"
  shows "case fsck_passes E pass tr of
           (Return r, tr') \<Rightarrow> (\<exists>q. I q tr') | (Exit x, tr') \<Rightarrow> Q x tr'"
  using assms(1,2)
proof (induction "nat (10 - pass)" arbitrary: pass tr)
  case 0
  then have "\<not> pass < 10" by simp
  then have "fsck_passes E pass tr = (Return 0, tr)" by (subst fsck_passes.simps) simp
  then show ?case using "0.prems"(1) by auto
next
  case (Suc n)
  then have lt: "pass < 10" by simp
  have one: "case fsck E pass tr of (Return r, tr') \<Rightarrow> I pass tr' | (Exit x, tr') \<Rightarrow> Q x tr'"
    by (rule fsck_rule [where I = "I pass" and Q = Q and E = E and pass = pass,
          OF Suc.prems(1) s [OF Suc.prems(2) lt] f [OF Suc.prems(2) lt] o [OF Suc.prems(2) lt]])
  obtain out tr1 where r: "fsck E pass tr = (out, tr1)" by (cases "fsck E pass tr")
  have unf: "fsck_passes E pass tr =
      (case out of Exit x \<Rightarrow> (Exit x, tr1)
       | Return rc \<Rightarrow> if rc \<noteq> 0 then (Return rc, tr1) else fsck_passes E (pass + 1) tr1)"
    using lt r by (subst fsck_passes.simps) (simp split: outcome.splits)
  show ?case
  proof (cases out)
    case (Exit x)
    then have "Q x tr1" using one r by simp
    then show ?thesis unfolding unf using Exit by simp
  next
    case (Return rc)
    then have i: "I pass tr1" using one r by simp
    show ?thesis
    proof (cases "rc = 0")
      case False
      then show ?thesis unfolding unf using Return i by auto
    next
      case True
      have "n = nat (10 - (pass + 1))" using Suc.hyps(2) by simp
      moreover have "I (pass + 1) tr1" by (rule m [OF Suc.prems(2) i])
      moreover have "1 \<le> pass + 1" using Suc.prems(2) by simp
      ultimately have "case fsck_passes E (pass + 1) tr1 of
           (Return r, tr') \<Rightarrow> (\<exists>q. I q tr') | (Exit x, tr') \<Rightarrow> Q x tr'"
        by (rule Suc.hyps(1))
      then show ?thesis unfolding unf using Return True by simp
    qed
  qed
qed

subsection \<open>Two runs\<close>

lemmas fsck_eval = fsck_all_def fsck_passes.simps fsck_def fsck_dev_def fsck_cmd_def
  sulogin_def run_systemf_def EX_OSFILE_def env_fstab_def env0_def m_proc_def m_home_def m_root_def

lemma fsck_all_env_bad:
  "fsck_all env_bad [] =
     (Exit 0, [Fsck_run 1 m_root ''fsck -a /dev/sda1'' 0,
               Fsck_run 2 m_home ''fsck -a /dev/sda2'' 4,
               Log ''Failed fsck /dev/sda2, attempting sulogin ...'',
               Systemf ''/sbin/sulogin'' 0,
               Do_shutdown SHUT_REBOOT])"
  by (simp add: fsck_eval env_bad_def)

lemma fsck_1_env_fixed:
  "fsck env_fixed 1 [] = (Return 1, [Fsck_run 1 m_root ''fsck -a /dev/sda1'' 1])"
  by (simp add: fsck_eval env_fixed_def)

lemma fsck_all_env_fixed:
  "fsck_all env_fixed [] = (Return 1, [Fsck_run 1 m_root ''fsck -a /dev/sda1'' 1])"
  by (simp add: fsck_eval env_fixed_def)

subsection \<open>Failed checks end in recovery\<close>

lemma no_failure_then_recovery:
  assumes "list_all (\<lambda>e. \<not> fsck_failed e) tr" and "1 \<le> pass"
  shows "case fsck_passes E pass tr of
           (Return r, tr') \<Rightarrow> list_all (\<lambda>e. \<not> fsck_failed e) tr'
         | (Exit x, tr') \<Rightarrow> halted_for_recovery E x tr'"
proof -
  let ?I = "\<lambda>p :: int. list_all (\<lambda>e. \<not> fsck_failed e)"
  have "case fsck_passes E pass tr of
           (Return r, tr') \<Rightarrow> (\<exists>q. ?I q tr') | (Exit x, tr') \<Rightarrow> halted_for_recovery E x tr'"
  proof (rule fsck_passes_rule [where I = ?I and Q = "halted_for_recovery E"])
    show "?I pass tr" by (rule assms(1))
    show "1 \<le> pass" by (rule assms(2))
  next
    fix p :: int and t and mnt :: mntent and dev and c :: int
    assume "?I p t" "c \<le> 1"
    then show "?I p (t @ [Fsck_run p mnt (fsck_cmd E dev) c])" by simp
  next
    fix p :: int and t and mnt :: mntent and dev and c :: int and x sh
    assume "?I p t" "2 \<le> c" "sh = [] \<or> (\<exists>q. sh = [Systemf q x])"
    then show "halted_for_recovery E x (t @ [Fsck_run p mnt (fsck_cmd E dev) c,
                   Log (''Failed fsck '' @ dev @ '', attempting sulogin ...'')] @ sh @
                   [Do_shutdown SHUT_REBOOT])"
      unfolding halted_for_recovery_def
      by (intro exI [of _ t] exI [of _ "[Fsck_run p mnt (fsck_cmd E dev) c,
                   Log (''Failed fsck '' @ dev @ '', attempting sulogin ...'')]"] exI [of _ sh])
        blast
  next
    fix p :: int and t x sh
    assume "?I p t" "sh = [] \<or> (\<exists>q. sh = [Systemf q x])"
    then show "halted_for_recovery E x (t @ [Log (''Failed opening fstab: '' @ fstab E)] @ sh @
                   [Do_shutdown SHUT_REBOOT])"
      unfolding halted_for_recovery_def
      by (intro exI [of _ t] exI [of _ "[Log (''Failed opening fstab: '' @ fstab E)]"]
          exI [of _ sh]) blast
  next
    fix p :: int and t
    assume "?I p t"
    then show "?I (p + 1) t" .
  qed
  then show ?thesis by (auto split: prod.splits outcome.splits)
qed

text \<open>
  Claim C1. At an fstab entry that is checked (it belongs to the pass, its device is
  found, it is not mounted read-write), a result of 2 or more from the fsck command
  makes \<^verbatim>\<open>fsck\<close> log the alert and call \<^verbatim>\<open>sulogin(1)\<close>, and a smaller result makes
  it go on with the next entry. \<^verbatim>\<open>sulogin(1)\<close> never returns: it runs the recovery
  shell if it finds one, then reboots, and the process ends. For the whole of
  \<^verbatim>\<open>fsck_all\<close>, from a history without failed checks: when it returns, no check has
  failed; when it does not, the events end with the cause (a failed check, or an fstab
  that cannot be opened), the recovery shell if there is one, and the reboot.
\<close>

theorem fsck_failure_recovery:
  "(mnt_passno mnt = pass \<and> pass \<noteq> 0 \<and> fsck_dev E mnt tr = Some dev \<and>
      \<not> ismnt_rw E tr (mnt_dir mnt) \<longrightarrow>
      fsck_loop E pass (mnt # ms) rc tr =
        (let c = run_interactive E tr (fsck_cmd E dev);
             tr1 = tr @ [Fsck_run pass mnt (fsck_cmd E dev) c]
         in if 2 \<le> c then
              sulogin E True (tr1 @ [Log (''Failed fsck '' @ dev @ '', attempting sulogin ...'')])
            else fsck_loop E pass ms (rc + c) tr1)) \<and>
   (\<exists>x sh. sulogin E True tr = (Exit x, tr @ sh @ [Do_shutdown SHUT_REBOOT]) \<and>
      (sh = [] \<or> (\<exists>p. sh = [Systemf p x]))) \<and>
   (list_all (\<lambda>e. \<not> fsck_failed e) tr0 \<longrightarrow>
      (case fsck_all E tr0 of
         (Return r, tr') \<Rightarrow> list_all (\<lambda>e. \<not> fsck_failed e) tr'
       | (Exit x, tr') \<Rightarrow> halted_for_recovery E x tr'))"
proof (intro conjI impI)
  assume "mnt_passno mnt = pass \<and> pass \<noteq> 0 \<and> fsck_dev E mnt tr = Some dev \<and>
      \<not> ismnt_rw E tr (mnt_dir mnt)"
  then show "fsck_loop E pass (mnt # ms) rc tr =
        (let c = run_interactive E tr (fsck_cmd E dev);
             tr1 = tr @ [Fsck_run pass mnt (fsck_cmd E dev) c]
         in if 2 \<le> c then
              sulogin E True (tr1 @ [Log (''Failed fsck '' @ dev @ '', attempting sulogin ...'')])
            else fsck_loop E pass ms (rc + c) tr1)"
    using fsck_loop_run [of mnt pass E tr dev ms rc] by blast
next
  show "\<exists>x sh. sulogin E True tr = (Exit x, tr @ sh @ [Do_shutdown SHUT_REBOOT]) \<and>
      (sh = [] \<or> (\<exists>p. sh = [Systemf p x]))"
    by (rule sulogin_reboots)
next
  assume a: "list_all (\<lambda>e. \<not> fsck_failed e) tr0"
  show "case fsck_all E tr0 of
         (Return r, tr') \<Rightarrow> list_all (\<lambda>e. \<not> fsck_failed e) tr'
       | (Exit x, tr') \<Rightarrow> halted_for_recovery E x tr'"
  proof (cases "FAST_BOOT E")
    case True
    then show ?thesis using a by (simp add: fsck_all_def)
  next
    case False
    then have "fsck_all E tr0 = fsck_passes E 1 tr0" by (simp add: fsck_all_def)
    then show ?thesis using no_failure_then_recovery [OF a, of 1 E] by simp
  qed
qed

text \<open>
  The check of \<^verbatim>\<open>/dev/sda2\<close> in pass 2 returns 4 and the system reboots after the
  shell; the check of \<^verbatim>\<open>/dev/sda1\<close> returns 1 and the loop goes on.
\<close>

theorem fsck_failure_recovery_witness:
  "fsck_loop env_bad 2 [m_home, m_root] 0 [] =
     sulogin env_bad True [Fsck_run 2 m_home ''fsck -a /dev/sda2'' 4,
                           Log ''Failed fsck /dev/sda2, attempting sulogin ...''] \<and>
   sulogin env_bad True [] = (Exit 0, [Systemf ''/sbin/sulogin'' 0, Do_shutdown SHUT_REBOOT]) \<and>
   fsck_all env_bad [] =
     (Exit 0, [Fsck_run 1 m_root ''fsck -a /dev/sda1'' 0,
               Fsck_run 2 m_home ''fsck -a /dev/sda2'' 4,
               Log ''Failed fsck /dev/sda2, attempting sulogin ...'',
               Systemf ''/sbin/sulogin'' 0,
               Do_shutdown SHUT_REBOOT]) \<and>
   halted_for_recovery env_bad 0 (snd (fsck_all env_bad [])) \<and>
   fsck_loop env_fixed 1 [m_root, m_home] 0 [] =
     fsck_loop env_fixed 1 [m_home] 1 [Fsck_run 1 m_root ''fsck -a /dev/sda1'' 1] \<and>
   fsck_all env_fixed [] = (Return 1, [Fsck_run 1 m_root ''fsck -a /dev/sda1'' 1]) \<and>
   list_all (\<lambda>e. \<not> fsck_failed e) (snd (fsck_all env_fixed []))"
proof -
  have d: "fsck_dev env_bad m_home [] = Some ''/dev/sda2''"
    "fsck_dev env_fixed m_root [] = Some ''/dev/sda1''"
    by (simp_all add: fsck_dev_def env_bad_def env_fixed_def env_fstab_def env0_def
        m_home_def m_root_def)
  have c: "fsck_cmd env_bad ''/dev/sda2'' = ''fsck -a /dev/sda2''"
    "fsck_cmd env_fixed ''/dev/sda1'' = ''fsck -a /dev/sda1''"
    "run_interactive env_bad [] ''fsck -a /dev/sda2'' = 4"
    "run_interactive env_fixed [] ''fsck -a /dev/sda1'' = 1"
    "\<not> ismnt_rw env_bad [] (mnt_dir m_home)" "\<not> ismnt_rw env_fixed [] (mnt_dir m_root)"
    "mnt_passno m_home = 2" "mnt_passno m_root = 1"
    by (simp_all add: fsck_cmd_def env_bad_def env_fixed_def env_fstab_def env0_def
        m_home_def m_root_def)
  have s: "sulogin env_bad True [] = (Exit 0, [Systemf ''/sbin/sulogin'' 0, Do_shutdown SHUT_REBOOT])"
    by (simp add: fsck_eval env_bad_def)
  show ?thesis
    using fsck_failure_recovery [of m_home 2 env_bad "[]" "''/dev/sda2''" "[m_root]" 0 "[]"]
      fsck_failure_recovery [of m_root 1 env_fixed "[]" "''/dev/sda1''" "[m_home]" 0 "[]"]
    by (simp add: d c s fsck_all_env_bad fsck_all_env_fixed Let_def del: fsck_loop.simps)
qed

subsection \<open>The order of the passes\<close>

lemma pass_ok_no_fsck: "filter is_fsck t = [] \<Longrightarrow> list_all pass_ok t"
proof (induction t)
  case Nil
  then show ?case by simp
next
  case (Cons e t)
  then show ?case by (cases e) (simp_all split: if_splits)
qed

lemma passes_in_order:
  assumes "list_all pass_ok tr" and "sorted (map pass_of (filter is_fsck tr))"
    and "\<forall>e \<in> set (filter is_fsck tr). pass_of e \<le> pass" and "1 \<le> pass"
  shows "list_all pass_ok (snd (fsck_passes E pass tr)) \<and>
         sorted (map pass_of (filter is_fsck (snd (fsck_passes E pass tr))))"
proof -
  let ?Q = "\<lambda>t. list_all pass_ok t \<and> sorted (map pass_of (filter is_fsck t))"
  let ?I = "\<lambda>(p :: int) t. ?Q t \<and> (\<forall>e \<in> set (filter is_fsck t). pass_of e \<le> p)"
  have sh: "filter is_fsck sh = [] \<and> list_all pass_ok sh"
    if "sh = [] \<or> (\<exists>q. sh = [Systemf q x])" for sh x
    using that by auto
  have "case fsck_passes E pass tr of
           (Return r, tr') \<Rightarrow> (\<exists>q. ?I q tr') | (Exit x, tr') \<Rightarrow> (\<lambda>x. ?Q) x tr'"
  proof (rule fsck_passes_rule [where I = ?I and Q = "\<lambda>x. ?Q"])
    show "?I pass tr" using assms(1,2,3) by simp
    show "1 \<le> pass" by (rule assms(4))
  next
    fix p :: int and t and mnt :: mntent and dev and c :: int
    assume "1 \<le> p" "p < 10" "?I p t" "mnt_passno mnt = p"
    then show "?I p (t @ [Fsck_run p mnt (fsck_cmd E dev) c])"
      by (auto simp: sorted_append)
  next
    fix p :: int and t and mnt :: mntent and dev and c :: int and x sh
    assume "1 \<le> p" "p < 10" "?I p t" "mnt_passno mnt = p"
      "sh = [] \<or> (\<exists>q. sh = [Systemf q x])"
    then show "?Q (t @ [Fsck_run p mnt (fsck_cmd E dev) c,
                   Log (''Failed fsck '' @ dev @ '', attempting sulogin ...'')] @ sh @
                   [Do_shutdown SHUT_REBOOT])"
      using sh [of sh x] by (auto simp: sorted_append)
  next
    fix p :: int and t x sh
    assume "?I p t" "sh = [] \<or> (\<exists>q. sh = [Systemf q x])"
    then show "?Q (t @ [Log (''Failed opening fstab: '' @ fstab E)] @ sh @
                   [Do_shutdown SHUT_REBOOT])"
      using sh [of sh x] by auto
  next
    fix p :: int and t
    assume "?I p t"
    then show "?I (p + 1) t" by fastforce
  qed
  then show ?thesis by (auto split: prod.splits outcome.splits)
qed

text \<open>
  Claim C4. In the events of \<^verbatim>\<open>fsck_all\<close> every check was made in a pass from 1 to 9
  on an entry whose \<^verbatim>\<open>fs_passno\<close> is that pass, and the passes of the checks never
  decrease. An entry with \<^verbatim>\<open>fs_passno\<close> 0, or other than the current pass, is stepped
  over. The loop starts at pass 1, goes from a pass that returned 0 to the next, ends
  after pass 9, and ends at once, with the result of that pass, at a pass that returns
  something else.
\<close>

theorem fsck_all_pass_order:
  "(filter is_fsck tr0 = [] \<longrightarrow>
      list_all pass_ok (snd (fsck_all E tr0)) \<and>
      sorted (map pass_of (filter is_fsck (snd (fsck_all E tr0))))) \<and>
   (mnt_passno mnt = 0 \<or> mnt_passno mnt \<noteq> pass \<longrightarrow>
      fsck_loop E pass (mnt # ms) rc tr = fsck_loop E pass ms rc tr) \<and>
   (pass < 10 \<and> fsck E pass tr = (Return r, tr1) \<and> r \<noteq> 0 \<longrightarrow>
      fsck_passes E pass tr = (Return r, tr1)) \<and>
   (pass < 10 \<and> fsck E pass tr = (Return 0, tr1) \<longrightarrow>
      fsck_passes E pass tr = fsck_passes E (pass + 1) tr1) \<and>
   fsck_passes E 10 tr = (Return 0, tr) \<and>
   fsck_all E tr0 = (if FAST_BOOT E then (Return 0, tr0) else fsck_passes E 1 tr0)"
proof (intro conjI impI)
  assume a: "filter is_fsck tr0 = []"
  have ok: "list_all pass_ok tr0" by (rule pass_ok_no_fsck [OF a])
  show "list_all pass_ok (snd (fsck_all E tr0))"
    using passes_in_order [of tr0 1 E] ok a by (simp add: fsck_all_def)
  show "sorted (map pass_of (filter is_fsck (snd (fsck_all E tr0))))"
    using passes_in_order [of tr0 1 E] ok a by (simp add: fsck_all_def)
next
  assume "mnt_passno mnt = 0 \<or> mnt_passno mnt \<noteq> pass"
  then show "fsck_loop E pass (mnt # ms) rc tr = fsck_loop E pass ms rc tr"
    using fsck_loop_skip [of mnt pass E tr ms rc] by blast
next
  assume "pass < 10 \<and> fsck E pass tr = (Return r, tr1) \<and> r \<noteq> 0"
  then show "fsck_passes E pass tr = (Return r, tr1)"
    by (subst fsck_passes.simps) simp
next
  assume "pass < 10 \<and> fsck E pass tr = (Return 0, tr1)"
  then show "fsck_passes E pass tr = fsck_passes E (pass + 1) tr1"
    by (subst fsck_passes.simps) simp
next
  show "fsck_passes E 10 tr = (Return 0, tr)"
    by (subst fsck_passes.simps) simp
next
  show "fsck_all E tr0 = (if FAST_BOOT E then (Return 0, tr0) else fsck_passes E 1 tr0)"
    by (simp add: fsck_all_def)
qed

text \<open>
  With the entry of pass 2 listed before the entry of pass 1, the check of pass 1 still
  comes first; and when pass 1 returns 1 the entry of pass 2 is not checked.
\<close>

theorem fsck_all_pass_order_witness:
  "snd (fsck_all env_bad []) =
     [Fsck_run 1 m_root ''fsck -a /dev/sda1'' 0,
      Fsck_run 2 m_home ''fsck -a /dev/sda2'' 4,
      Log ''Failed fsck /dev/sda2, attempting sulogin ...'',
      Systemf ''/sbin/sulogin'' 0,
      Do_shutdown SHUT_REBOOT] \<and>
   list_all pass_ok (snd (fsck_all env_bad [])) \<and>
   sorted (map pass_of (filter is_fsck (snd (fsck_all env_bad [])))) \<and>
   fsck_loop env_fixed 1 [m_proc, m_home, m_root] 0 [] = fsck_loop env_fixed 1 [m_home, m_root] 0 [] \<and>
   fsck_loop env_fixed 1 [m_home, m_root] 0 [] = fsck_loop env_fixed 1 [m_root] 0 [] \<and>
   fsck env_fixed 1 [] = (Return 1, [Fsck_run 1 m_root ''fsck -a /dev/sda1'' 1]) \<and>
   fsck_passes env_fixed 1 [] = (Return 1, [Fsck_run 1 m_root ''fsck -a /dev/sda1'' 1]) \<and>
   fsck env_bad 1 [] = (Return 0, [Fsck_run 1 m_root ''fsck -a /dev/sda1'' 0]) \<and>
   fsck_passes env_bad 1 [] = fsck_passes env_bad 2 [Fsck_run 1 m_root ''fsck -a /dev/sda1'' 0]"
proof -
  have p: "mnt_passno m_proc = 0" "mnt_passno m_home \<noteq> 1"
    by (simp_all add: m_proc_def m_home_def)
  have f: "fsck env_bad 1 [] = (Return 0, [Fsck_run 1 m_root ''fsck -a /dev/sda1'' 0])"
    by (simp add: fsck_eval env_bad_def)
  have w1: "list_all pass_ok (snd (fsck_all env_bad [])) \<and>
      sorted (map pass_of (filter is_fsck (snd (fsck_all env_bad []))))"
    using fsck_all_pass_order [where ?tr0.0 = "[]" and E = env_bad, THEN conjunct1] by simp
  have w2: "fsck_loop env_fixed 1 [m_proc, m_home, m_root] 0 [] =
      fsck_loop env_fixed 1 [m_home, m_root] 0 []"
    using fsck_all_pass_order [where E = env_fixed and mnt = m_proc and pass = 1
        and ms = "[m_home, m_root]" and rc = 0 and tr = "[]", THEN conjunct2, THEN conjunct1] p(1)
    by blast
  have w3: "fsck_loop env_fixed 1 [m_home, m_root] 0 [] = fsck_loop env_fixed 1 [m_root] 0 []"
    using fsck_all_pass_order [where E = env_fixed and mnt = m_home and pass = 1
        and ms = "[m_root]" and rc = 0 and tr = "[]", THEN conjunct2, THEN conjunct1] p(2)
    by blast
  have w4: "fsck_passes env_fixed 1 [] = (Return 1, [Fsck_run 1 m_root ''fsck -a /dev/sda1'' 1])"
    using fsck_all_pass_order [where E = env_fixed and pass = 1 and tr = "[]" and r = 1
        and ?tr1.0 = "[Fsck_run 1 m_root ''fsck -a /dev/sda1'' 1]",
        THEN conjunct2, THEN conjunct2, THEN conjunct1] fsck_1_env_fixed
    by simp
  have w5: "fsck_passes env_bad 1 [] =
      fsck_passes env_bad 2 [Fsck_run 1 m_root ''fsck -a /dev/sda1'' 0]"
    using fsck_all_pass_order [where E = env_bad and pass = 1 and tr = "[]"
        and ?tr1.0 = "[Fsck_run 1 m_root ''fsck -a /dev/sda1'' 0]",
        THEN conjunct2, THEN conjunct2, THEN conjunct2, THEN conjunct1] f
    by simp
  show ?thesis
    using w1 w2 w3 w4 w5 by (simp only: f fsck_1_env_fixed fsck_all_env_bad snd_conv simp_thms)
qed

end
